theory Spec2Isabelle
  imports Main
begin

section \<open>JavaScript values that reach the wrappers\<close>

text \<open>
  The three wrappers of \<^verbatim>\<open>src/timers/throttle/index.js\<close> and
  \<^verbatim>\<open>src/timers/clocked/index.js\<close> receive untyped arguments: the receiver
  (\<^verbatim>\<open>this\<close>, the function to be wrapped), a duration, a flag, a target object and,
  for \<^verbatim>\<open>clocked\<close>, a controller. The values below are the ones the code inspects.

  A number is \<^verbatim>\<open>NaN\<close>, an infinity or a safe integer, an integer \<open>i\<close> with
  \<open>\<bar>i\<bar> \<le> 2 ^ 53 - 1\<close> (\<open>-0\<close> and \<open>0\<close> are both \<open>0\<close>). Numbers with a fractional part
  and integers beyond the safe range are doubles that this type does not contain.
\<close>

typedef safe_integer = "{i :: int. \<bar>i\<bar> \<le> 2 ^ 53 - 1}"
  by (rule exI [of _ 0]) simp

setup_lifting type_definition_safe_integer

lift_definition valueOf :: "safe_integer \<Rightarrow> int" is "\<lambda>i. i" .

text \<open>The safe integer \<open>i\<close>, written as a value of the type (\<open>0\<close> outside the range).\<close>

lift_definition safeInt :: "int \<Rightarrow> safe_integer"
  is "\<lambda>i. if \<bar>i\<bar> \<le> 2 ^ 53 - 1 then i else 0"
  by simp

text \<open>
  A string is a list of code units below 256. \<open>Sym n\<close> is a Symbol. \<open>Obj n\<close> is a plain
  object with identity \<open>n\<close>. \<open>Fn n c a\<close> is a value whose \<^verbatim>\<open>typeof\<close> is
  \<^verbatim>\<open>'function'\<close>, with identity \<open>n\<close>; \<open>c\<close> and \<open>a\<close> say whether its \<^verbatim>\<open>call\<close> and
  \<^verbatim>\<open>apply\<close> properties are functions. \<open>GlobalThis\<close> is the global object.
  \<open>Wrapper v\<close> is the wrapper object (\<^verbatim>\<open>Object(v)\<close>) of a primitive \<open>v\<close> other than
  \<^verbatim>\<open>undefined\<close> and \<^verbatim>\<open>null\<close>.
\<close>

datatype jsval =
    Undefined
  | Null
  | JBool bool
  | Num safe_integer
  | NaN
  | PosInfinity
  | NegInfinity
  | Str string
  | Sym nat
  | Obj nat
  | Fn nat bool bool
  | GlobalThis
  | Wrapper jsval

text \<open>ToBoolean, as used by \<^verbatim>\<open>||\<close>, \<^verbatim>\<open>!!\<close> and \<^verbatim>\<open>if\<close>.\<close>

fun truthy :: "jsval \<Rightarrow> bool" where
  "truthy Undefined = False"
| "truthy Null = False"
| "truthy (JBool b) = b"
| "truthy (Num n) = (valueOf n \<noteq> 0)"
| "truthy NaN = False"
| "truthy (Str s) = (s \<noteq> [])"
| "truthy v = True"

definition js_or :: "jsval \<Rightarrow> jsval \<Rightarrow> jsval" where
  "js_or a b = (if truthy a then a else b)"

text \<open>The operator \<^verbatim>\<open>??\<close>: the right operand replaces \<^verbatim>\<open>null\<close> and \<^verbatim>\<open>undefined\<close> only.\<close>

definition nullish :: "jsval \<Rightarrow> bool" where
  "nullish v = (v = Undefined \<or> v = Null)"

definition js_coalesce :: "jsval \<Rightarrow> jsval \<Rightarrow> jsval" where
  "js_coalesce a b = (if nullish a then b else a)"

text \<open>
  \<^verbatim>\<open>throttle/index.js\<close> is not strict code. The \<^verbatim>\<open>this\<close> that one of its functions
  sees is the receiver of the call made into an object: the global object for
  \<^verbatim>\<open>undefined\<close> and \<^verbatim>\<open>null\<close> (also for a call without a receiver), the wrapper
  object for any other primitive, the receiver itself for an object.
  \<^verbatim>\<open>clocked/index.js\<close> is strict (\<^verbatim>\<open>'use strict'\<close>): there \<^verbatim>\<open>this\<close> is the receiver
  as it was passed.
\<close>

fun sloppyThis :: "jsval \<Rightarrow> jsval" where
  "sloppyThis Undefined = GlobalThis"
| "sloppyThis Null = GlobalThis"
| "sloppyThis (JBool b) = Wrapper (JBool b)"
| "sloppyThis (Num n) = Wrapper (Num n)"
| "sloppyThis NaN = Wrapper NaN"
| "sloppyThis PosInfinity = Wrapper PosInfinity"
| "sloppyThis NegInfinity = Wrapper NegInfinity"
| "sloppyThis (Str s) = Wrapper (Str s)"
| "sloppyThis (Sym n) = Wrapper (Sym n)"
| "sloppyThis v = v"

text \<open>
  \<^verbatim>\<open>isFunction(value)\<close>: \<^verbatim>\<open>typeof value === 'function' && typeof value.call === 'function'
  && typeof value.apply === 'function'\<close> (the same in both files).
\<close>

fun isFunction :: "jsval \<Rightarrow> bool" where
  "isFunction (Fn n c a) = (c \<and> a)"
| "isFunction v = False"

text \<open>\<^verbatim>\<open>getSanitizedTarget(value)\<close>: \<^verbatim>\<open>value ?? null\<close> (the same in both files).\<close>

definition getSanitizedTarget :: "jsval \<Rightarrow> jsval" where
  "getSanitizedTarget v = js_coalesce v Null"

section \<open>The host's \<^verbatim>\<open>parseInt(value, 10)\<close>\<close>

text \<open>
  Both files sanitise a duration with \<^verbatim>\<open>parseInt(value, 10)\<close>. The host converts the
  value to a string, which throws a \<^verbatim>\<open>TypeError\<close> for a Symbol; it skips leading white
  space, reads an optional sign and then the longest run of decimal digits. With no
  digit the result is \<^verbatim>\<open>NaN\<close>; otherwise it is the Number value of the integer read:
  the integer itself below \<open>2 ^ 53\<close>, beyond that the nearest double (ties to the even
  significand), and an infinity from \<open>2 ^ 1024 - 2 ^ 970\<close> on.
\<close>

datatype error = TypeError

datatype number = Integer int | NaNValue | InfinityValue

definition isDigit :: "char \<Rightarrow> bool" where
  "isDigit c = (48 \<le> (of_char c :: nat) \<and> (of_char c :: nat) \<le> 57)"

definition digitValue :: "char \<Rightarrow> nat" where
  "digitValue c = (of_char c :: nat) - 48"

definition digitChar :: "nat \<Rightarrow> char" where
  "digitChar d = char_of (48 + d)"

text \<open>
  The white space and line terminators below 256: tab, line feed, vertical tab, form
  feed, carriage return, space and the no-break space.
\<close>

definition isWhiteSpace :: "char \<Rightarrow> bool" where
  "isWhiteSpace c =
     ((of_char c :: nat) = 32 \<or> (of_char c :: nat) = 160 \<or>
      (9 \<le> (of_char c :: nat) \<and> (of_char c :: nat) \<le> 13))"

fun decimal :: "nat \<Rightarrow> string" where
  "decimal n = (if n < 10 then [digitChar n] else decimal (n div 10) @ [digitChar (n mod 10)])"

declare decimal.simps [simp del]

text \<open>Number to string, for a safe integer: the decimal digits, after the sign.\<close>

definition numberToString :: "safe_integer \<Rightarrow> string" where
  "numberToString n =
     (if valueOf n < 0 then CHR ''-'' # decimal (nat (- valueOf n)) else decimal (nat (valueOf n)))"

text \<open>
  ToString. A plain object prints as \<^verbatim>\<open>[object Object]\<close> and the global object in the
  same bracketed form; a function prints as its source text, which for a function
  expression begins with the keyword; a wrapper object prints as its primitive.
\<close>

fun toString :: "jsval \<Rightarrow> error + string" where
  "toString Undefined = Inr ''undefined''"
| "toString Null = Inr ''null''"
| "toString (JBool b) = Inr (if b then ''true'' else ''false'')"
| "toString (Num n) = Inr (numberToString n)"
| "toString NaN = Inr ''NaN''"
| "toString PosInfinity = Inr ''Infinity''"
| "toString NegInfinity = Inr ''-Infinity''"
| "toString (Str s) = Inr s"
| "toString (Sym n) = Inl TypeError"
| "toString (Obj n) = Inr ''[object Object]''"
| "toString (Fn n c a) = Inr ''function () {}''"
| "toString GlobalThis = Inr ''[object global]''"
| "toString (Wrapper v) = toString v"

definition digitsValue :: "string \<Rightarrow> nat" where
  "digitsValue ds = foldl (\<lambda>acc c. acc * 10 + digitValue c) 0 ds"

fun bitLength :: "nat \<Rightarrow> nat" where
  "bitLength n = (if n = 0 then 0 else Suc (bitLength (n div 2)))"

declare bitLength.simps [simp del]

text \<open>The Number value of an integer: the nearest double, or an infinity.\<close>

definition numberValue :: "int \<Rightarrow> number" where
  "numberValue x =
     (let m = nat \<bar>x\<bar>
      in if m < 2 ^ 53 then Integer x
         else
           let e = bitLength m - 53;
               q = m div 2 ^ e;
               r = m mod 2 ^ e;
               q' = (if 2 ^ e < 2 * r \<or> (2 * r = 2 ^ e \<and> odd q) then q + 1 else q);
               v = q' * 2 ^ e
           in if 2 ^ 1024 \<le> v then InfinityValue else Integer (sgn x * int v))"

definition parseSigned :: "string \<Rightarrow> number" where
  "parseSigned s =
     (let (sign, r) =
            (case s of
               [] \<Rightarrow> (1 :: int, [])
             | c # cs \<Rightarrow>
                 if c = CHR ''-'' then (- 1, cs)
                 else if c = CHR ''+'' then (1, cs)
                 else (1, s));
          ds = takeWhile isDigit r
      in if ds = [] then NaNValue else numberValue (sign * int (digitsValue ds)))"

definition parseInt :: "jsval \<Rightarrow> error + number" where
  "parseInt v =
     (case toString v of
        Inl e \<Rightarrow> Inl e
      | Inr s \<Rightarrow> Inr (parseSigned (dropWhile isWhiteSpace s)))"

section \<open>Sanitising a duration\<close>

text \<open>
  \<^verbatim>\<open>throttle/index.js\<close>:
  \<^verbatim>\<open>getSanitizedInteger(number) = (isSafeInteger(number = parseInt(number, 10)) && number) || 0\<close>.
\<close>

definition isSafeInteger :: "number \<Rightarrow> bool" where
  "isSafeInteger p = (case p of Integer i \<Rightarrow> \<bar>i\<bar> \<le> 2 ^ 53 - 1 | _ \<Rightarrow> False)"

definition throttle_getSanitizedInteger :: "jsval \<Rightarrow> error + int" where
  "throttle_getSanitizedInteger number =
     (case parseInt number of
        Inl e \<Rightarrow> Inl e
      | Inr p \<Rightarrow>
          Inr (case p of
                 Integer i \<Rightarrow> if isSafeInteger p \<and> i \<noteq> 0 then i else 0
               | _ \<Rightarrow> 0))"

definition throttle_getSanitizedPositiveInteger :: "jsval \<Rightarrow> error + int" where
  "throttle_getSanitizedPositiveInteger number =
     (case throttle_getSanitizedInteger number of
        Inl e \<Rightarrow> Inl e
      | Inr i \<Rightarrow> Inr (max i 0))"

text \<open>
  \<^verbatim>\<open>clocked/index.js\<close>:
  \<^verbatim>\<open>value = parseInt(value, 10); return isFinite(value) ? value : 0\<close>.
\<close>

definition clocked_getSanitizedInteger :: "jsval \<Rightarrow> error + int" where
  "clocked_getSanitizedInteger v =
     (case parseInt v of
        Inl e \<Rightarrow> Inl e
      | Inr p \<Rightarrow> Inr (case p of Integer i \<Rightarrow> i | _ \<Rightarrow> 0))"

definition clocked_getSanitizedPositiveInteger :: "jsval \<Rightarrow> error + int" where
  "clocked_getSanitizedPositiveInteger v =
     (case clocked_getSanitizedInteger v of
        Inl e \<Rightarrow> Inl e
      | Inr i \<Rightarrow> Inr (max i 0))"

definition DEFAULT_THROTTLE_THRESHOLD :: int where
  "DEFAULT_THROTTLE_THRESHOLD = 200"

definition DEFAULT_DEBOUNCE_DELAY :: int where
  "DEFAULT_DEBOUNCE_DELAY = 100"

definition DEFAULT_INTERVAL :: int where
  "DEFAULT_INTERVAL = 200"

text \<open>\<^verbatim>\<open>n || DEFAULT\<close> on a number \<open>n\<close>: the default replaces \<open>0\<close>.\<close>

definition orDefault :: "int \<Rightarrow> int \<Rightarrow> int" where
  "orDefault n d = (if n \<noteq> 0 then n else d)"

definition throttleThreshold :: "jsval \<Rightarrow> error + int" where
  "throttleThreshold threshold =
     (case throttle_getSanitizedPositiveInteger threshold of
        Inl e \<Rightarrow> Inl e
      | Inr n \<Rightarrow> Inr (orDefault n DEFAULT_THROTTLE_THRESHOLD))"

definition debounceDelay :: "jsval \<Rightarrow> error + int" where
  "debounceDelay delay =
     (case throttle_getSanitizedPositiveInteger delay of
        Inl e \<Rightarrow> Inl e
      | Inr n \<Rightarrow> Inr (orDefault n DEFAULT_DEBOUNCE_DELAY))"

definition clockedInterval :: "jsval \<Rightarrow> error + int" where
  "clockedInterval interval =
     (case clocked_getSanitizedPositiveInteger interval of
        Inl e \<Rightarrow> Inl e
      | Inr n \<Rightarrow> Inr (orDefault n DEFAULT_INTERVAL))"


section \<open>The host: clock, timers and the wrapped function\<close>

text \<open>
  The governors use the host through \<^verbatim>\<open>Date.now()\<close>, \<^verbatim>\<open>setTimeout\<close>,
  \<^verbatim>\<open>clearTimeout\<close>, \<^verbatim>\<open>setInterval\<close>, \<^verbatim>\<open>clearInterval\<close> and
  \<^verbatim>\<open>proceed.apply(context, args)\<close>. The host is single threaded: a callback runs to
  its end before anything else does. A timer is kept with its handle, the time it is
  due, its period (for \<^verbatim>\<open>setInterval\<close>), the callback (one of the governor's own
  inner functions, \<open>'cb\<close>) and the arguments handed to \<^verbatim>\<open>setTimeout\<close>. Handles are
  positive integers, so a handle is never \<^verbatim>\<open>null\<close> and always truthy; a timer fires
  at the time it is due. The wrapped function is opaque: each call of it is recorded
  with the time, the \<^verbatim>\<open>this\<close> value and the arguments.
\<close>

record 'cb timer =
  handle :: nat
  due :: int
  period :: "int option"
  callback :: 'cb
  targs :: "jsval list"

type_synonym invocation = "int \<times> jsval \<times> jsval list"

record 'cb host =
  now :: int
  nextHandle :: nat
  pending :: "'cb timer list"
  invoked :: "invocation list"

definition host0 :: "'cb host" where
  "host0 = \<lparr>now = 0, nextHandle = 1, pending = [], invoked = []\<rparr>"

definition setTimeout :: "'cb \<Rightarrow> int \<Rightarrow> jsval list \<Rightarrow> 'cb host \<Rightarrow> nat \<times> 'cb host" where
  "setTimeout cb delay args h =
     (nextHandle h,
      h\<lparr>nextHandle := nextHandle h + 1,
        pending := pending h @
          [\<lparr>handle = nextHandle h, due = now h + delay, period = None,
            callback = cb, targs = args\<rparr>]\<rparr>)"

definition setInterval :: "'cb \<Rightarrow> int \<Rightarrow> 'cb host \<Rightarrow> nat \<times> 'cb host" where
  "setInterval cb delay h =
     (nextHandle h,
      h\<lparr>nextHandle := nextHandle h + 1,
        pending := pending h @
          [\<lparr>handle = nextHandle h, due = now h + delay, period = Some delay,
            callback = cb, targs = []\<rparr>]\<rparr>)"

text \<open>
  \<^verbatim>\<open>clearTimeout(id)\<close> and \<^verbatim>\<open>clearInterval(id)\<close>: a handle that is
  \<^verbatim>\<open>undefined\<close> or \<^verbatim>\<open>null\<close> (\<open>None\<close>), or whose timer has fired or was cancelled,
  changes nothing.
\<close>

definition clearTimeout :: "nat option \<Rightarrow> 'cb host \<Rightarrow> 'cb host" where
  "clearTimeout tid h =
     (case tid of
        None \<Rightarrow> h
      | Some i \<Rightarrow> h\<lparr>pending := filter (\<lambda>x. handle x \<noteq> i) (pending h)\<rparr>)"

definition apply_proceed :: "jsval \<Rightarrow> jsval list \<Rightarrow> 'cb host \<Rightarrow> 'cb host" where
  "apply_proceed ctx args h = h\<lparr>invoked := invoked h @ [(now h, ctx, args)]\<rparr>"

text \<open>The timer the host runs next: the earliest due, the older one on a tie.\<close>

fun earliest :: "'cb timer list \<Rightarrow> 'cb timer option" where
  "earliest [] = None"
| "earliest (x # xs) =
     (case earliest xs of
        None \<Rightarrow> Some x
      | Some y \<Rightarrow> if due y < due x then Some y else Some x)"

text \<open>
  Taking a timer off the queue as it fires: a timeout is removed, an interval timer
  stays with its next due time.
\<close>

definition rearm :: "'cb timer \<Rightarrow> 'cb host \<Rightarrow> 'cb host" where
  "rearm x h =
     (case period x of
        None \<Rightarrow> h\<lparr>pending := filter (\<lambda>y. handle y \<noteq> handle x) (pending h)\<rparr>
      | Some p \<Rightarrow>
          h\<lparr>pending := map (\<lambda>y. if handle y = handle x then y\<lparr>due := due x + p\<rparr> else y)
                          (pending h)\<rparr>)"

text \<open>
  The event loop up to time \<open>t\<close>: while a timer is due at or before \<open>t\<close>, the clock
  moves to its due time and its callback runs (\<open>fire\<close> is the governor's dispatch);
  then the clock moves to \<open>t\<close>. An interval timer may keep the loop busy for ever, so the
  loop has fuel, and \<open>None\<close> says the fuel ran out.
\<close>

fun runTimers ::
  "('cb \<Rightarrow> jsval list \<Rightarrow> 'cb host \<times> 'v \<Rightarrow> 'cb host \<times> 'v) \<Rightarrow> nat \<Rightarrow> int \<Rightarrow>
   'cb host \<times> 'v \<Rightarrow> ('cb host \<times> 'v) option" where
  "runTimers fire 0 t s = None"
| "runTimers fire (Suc n) t (h, v) =
     (case earliest (pending h) of
        None \<Rightarrow> Some (h\<lparr>now := max (now h) t\<rparr>, v)
      | Some x \<Rightarrow>
          if t < due x then Some (h\<lparr>now := max (now h) t\<rparr>, v)
          else runTimers fire n t
                 (fire (callback x) (targs x) (rearm x (h\<lparr>now := max (now h) (due x)\<rparr>), v)))"

section \<open>Throttle\<close>

text \<open>
  \<^verbatim>\<open>throttle(threshold, isSuppressTrailingCall, target)\<close> called on a receiver.
  \<^verbatim>\<open>const proceed = this\<close> is the receiver as this non-strict function sees it. The
  guard returns \<open>proceed\<close> when it is not a function, before anything is sanitised;
  otherwise the threshold is sanitised, which may throw, and the result is the closure
  \<^verbatim>\<open>throttled\<close>, here the values it closes over.
\<close>

datatype 'g wrapped = Returned jsval | Governed 'g

record throttle_cfg =
  thr_proceed :: jsval
  thr_threshold :: int
  thr_suppress :: bool
  thr_target :: jsval

definition throttle :: "jsval \<Rightarrow> jsval \<Rightarrow> jsval \<Rightarrow> jsval \<Rightarrow> error + throttle_cfg wrapped" where
  "throttle receiver threshold isSuppressTrailingCall target =
     (let proceed = sloppyThis receiver
      in if \<not> isFunction proceed then Inr (Returned proceed)
         else
           (case throttleThreshold threshold of
              Inl e \<Rightarrow> Inl e
            | Inr t \<Rightarrow>
                Inr (Governed
                  \<lparr>thr_proceed = proceed,
                   thr_threshold = t,
                   thr_suppress = truthy isSuppressTrailingCall,
                   thr_target = getSanitizedTarget target\<rparr>)))"

text \<open>\<^verbatim>\<open>staticThrottle(proceed, ...)\<close> is \<^verbatim>\<open>throttle.call(proceed, ...)\<close>.\<close>

definition staticThrottle :: "jsval \<Rightarrow> jsval \<Rightarrow> jsval \<Rightarrow> jsval \<Rightarrow> error + throttle_cfg wrapped" where
  "staticThrottle proceed threshold isSuppressTrailingCall target =
     throttle proceed threshold isSuppressTrailingCall target"

text \<open>
  The variables of the closure: \<^verbatim>\<open>let timeoutId, timeGap; let timestampRecent,
  timestampCurrent; let context;\<close>, all \<^verbatim>\<open>undefined\<close> at first.
\<close>

record throttle_vars =
  timeoutId :: "nat option"
  timeGap :: "int option"
  timestampRecent :: "int option"
  timestampCurrent :: "int option"
  thr_context :: jsval

definition throttle_vars0 :: throttle_vars where
  "throttle_vars0 =
     \<lparr>timeoutId = None, timeGap = None, timestampRecent = None,
      timestampCurrent = None, thr_context = Undefined\<rparr>"

datatype throttle_cb = Trigger

type_synonym throttle_state = "throttle_cb host \<times> throttle_vars"

text \<open>
  \<^verbatim>\<open>trigger(...argsArray)\<close>: \<^verbatim>\<open>timestampRecent = timestampCurrent;
  proceed.apply(context, argsArray)\<close>.
\<close>

definition trigger :: "jsval list \<Rightarrow> throttle_state \<Rightarrow> throttle_state" where
  "trigger argsArray s =
     (case s of (h, v) \<Rightarrow>
        (apply_proceed (thr_context v) argsArray h,
         v\<lparr>timestampRecent := timestampCurrent v\<rparr>))"

text \<open>\<^verbatim>\<open>if (timestampRecent)\<close>: \<^verbatim>\<open>undefined\<close> and \<open>0\<close> are falsy.\<close>

definition truthyTime :: "int option \<Rightarrow> bool" where
  "truthyTime x = (case x of None \<Rightarrow> False | Some t \<Rightarrow> t \<noteq> 0)"

text \<open>
  \<^verbatim>\<open>throttled(...argsArray)\<close> called on the receiver \<open>self\<close> (\<^verbatim>\<open>undefined\<close> for a call
  without one); its \<^verbatim>\<open>this\<close> is \<open>sloppyThis self\<close>.
\<close>

definition throttled :: "throttle_cfg \<Rightarrow> jsval \<Rightarrow> jsval list \<Rightarrow> throttle_state \<Rightarrow> throttle_state" where
  "throttled cfg self argsArray s =
     (case s of (h0, v0) \<Rightarrow>
        let h1 = clearTimeout (timeoutId v0) h0;
            v1 = v0\<lparr>thr_context := js_or (thr_target cfg) (getSanitizedTarget (sloppyThis self))\<rparr>;
            v2 = v1\<lparr>timestampCurrent := Some (now h1)\<rparr>
        in if truthyTime (timestampRecent v2) then
             (case timestampRecent v2 of
                None \<Rightarrow> trigger argsArray (h1, v2)
              | Some recent \<Rightarrow>
                  let gap = now h1 - recent;
                      v3 = v2\<lparr>timeGap := Some gap\<rparr>
                  in if thr_suppress cfg \<and> gap \<ge> thr_threshold cfg then
                       trigger argsArray (h1, v3)
                     else
                       (case setTimeout Trigger (max (thr_threshold cfg - gap) 0) argsArray h1 of
                          (i, h2) \<Rightarrow> (h2, v3\<lparr>timeoutId := Some i\<rparr>)))
           else trigger argsArray (h1, v2))"

fun throttle_fire :: "throttle_cb \<Rightarrow> jsval list \<Rightarrow> throttle_state \<Rightarrow> throttle_state" where
  "throttle_fire Trigger args s = trigger args s"

text \<open>
  What happens to a governed function from outside: it is called at a time, with a
  \<^verbatim>\<open>this\<close> value and arguments, or the host is left alone until a time. Timers due
  before the time of a call have fired when the call is made.
\<close>

datatype event = Call int jsval "jsval list" | Wait int

fun throttle_run :: "throttle_cfg \<Rightarrow> nat \<Rightarrow> event list \<Rightarrow> throttle_state \<Rightarrow> throttle_state option" where
  "throttle_run cfg fuel [] s = Some s"
| "throttle_run cfg fuel (Wait t # es) s =
     (case runTimers throttle_fire fuel t s of
        None \<Rightarrow> None
      | Some s' \<Rightarrow> throttle_run cfg fuel es s')"
| "throttle_run cfg fuel (Call t self args # es) s =
     (case runTimers throttle_fire fuel (t - 1) s of
        None \<Rightarrow> None
      | Some (h, v) \<Rightarrow> throttle_run cfg fuel es (throttled cfg self args (h\<lparr>now := max (now h) t\<rparr>, v)))"

section \<open>Debounce\<close>

text \<open>
  \<^verbatim>\<open>debounce(delay, isTriggerImmediately, target)\<close> with receiver \<open>proceed\<close>, guarded
  like \<^verbatim>\<open>throttle\<close>.
\<close>

record debounce_cfg =
  deb_proceed :: jsval
  deb_delay :: int
  deb_immediate :: bool
  deb_target :: jsval

definition debounce :: "jsval \<Rightarrow> jsval \<Rightarrow> jsval \<Rightarrow> jsval \<Rightarrow> error + debounce_cfg wrapped" where
  "debounce receiver delay isTriggerImmediately target =
     (let proceed = sloppyThis receiver
      in if \<not> isFunction proceed then Inr (Returned proceed)
         else
           (case debounceDelay delay of
              Inl e \<Rightarrow> Inl e
            | Inr d \<Rightarrow>
                Inr (Governed
                  \<lparr>deb_proceed = proceed,
                   deb_delay = d,
                   deb_immediate = truthy isTriggerImmediately,
                   deb_target = getSanitizedTarget target\<rparr>)))"

definition staticDebounce :: "jsval \<Rightarrow> jsval \<Rightarrow> jsval \<Rightarrow> jsval \<Rightarrow> error + debounce_cfg wrapped" where
  "staticDebounce proceed delay isTriggerImmediately target =
     debounce proceed delay isTriggerImmediately target"

text \<open>
  \<^verbatim>\<open>let timeoutResetId, timeoutId; let context;\<close> and the call of
  \<^verbatim>\<open>resetTimeoutId()\<close> that sets \<^verbatim>\<open>timeoutId = null\<close> before \<^verbatim>\<open>debounced\<close> is
  returned. \<^verbatim>\<open>if (timeoutId)\<close> holds exactly when \<^verbatim>\<open>timeoutId\<close> is a handle.
\<close>

record debounce_vars =
  timeoutResetId :: "nat option"
  deb_timeoutId :: "nat option"
  deb_context :: jsval

definition debounce_vars0 :: debounce_vars where
  "debounce_vars0 = \<lparr>timeoutResetId = None, deb_timeoutId = None, deb_context = Undefined\<rparr>"

datatype debounce_cb = DebounceTrigger | ImmediateTrigger | ResetTimeoutId

type_synonym debounce_state = "debounce_cb host \<times> debounce_vars"

definition resetTimeoutId :: "debounce_state \<Rightarrow> debounce_state" where
  "resetTimeoutId s = (case s of (h, v) \<Rightarrow> (h, v\<lparr>deb_timeoutId := None\<rparr>))"

definition debounceTrigger :: "jsval list \<Rightarrow> debounce_state \<Rightarrow> debounce_state" where
  "debounceTrigger argsArray s =
     (case resetTimeoutId s of (h, v) \<Rightarrow> (apply_proceed (deb_context v) argsArray h, v))"

definition immediateTrigger :: "debounce_cfg \<Rightarrow> jsval list \<Rightarrow> debounce_state \<Rightarrow> debounce_state" where
  "immediateTrigger cfg argsArray s =
     (case s of (h, v) \<Rightarrow>
        (case setTimeout ResetTimeoutId (deb_delay cfg) [] h of
           (i, h1) \<Rightarrow>
             (apply_proceed (deb_context v) argsArray h1, v\<lparr>timeoutResetId := Some i\<rparr>)))"

text \<open>
  \<^verbatim>\<open>debounced(...argsArray)\<close> called on the receiver \<open>self\<close>; its \<^verbatim>\<open>this\<close> is
  \<open>sloppyThis self\<close>.
\<close>

definition debounced :: "debounce_cfg \<Rightarrow> jsval \<Rightarrow> jsval list \<Rightarrow> debounce_state \<Rightarrow> debounce_state" where
  "debounced cfg self argsArray s =
     (case s of (h0, v0) \<Rightarrow>
        let v1 = v0\<lparr>deb_context := js_or (deb_target cfg) (getSanitizedTarget (sloppyThis self))\<rparr>
        in if deb_timeoutId v1 \<noteq> None then
             (let h1 = clearTimeout (timeoutResetId v1) h0;
                  h2 = clearTimeout (deb_timeoutId v1) h1
              in case setTimeout DebounceTrigger (deb_delay cfg) argsArray h2 of
                   (i, h3) \<Rightarrow> (h3, v1\<lparr>deb_timeoutId := Some i\<rparr>))
           else if deb_immediate cfg then
             (case setTimeout ImmediateTrigger 0 argsArray h0 of
                (i, h1) \<Rightarrow> (h1, v1\<lparr>deb_timeoutId := Some i\<rparr>))
           else
             (case setTimeout DebounceTrigger (deb_delay cfg) argsArray h0 of
                (i, h1) \<Rightarrow> (h1, v1\<lparr>deb_timeoutId := Some i\<rparr>)))"

fun debounce_fire :: "debounce_cfg \<Rightarrow> debounce_cb \<Rightarrow> jsval list \<Rightarrow> debounce_state \<Rightarrow> debounce_state" where
  "debounce_fire cfg DebounceTrigger args s = debounceTrigger args s"
| "debounce_fire cfg ImmediateTrigger args s = immediateTrigger cfg args s"
| "debounce_fire cfg ResetTimeoutId args s = resetTimeoutId s"

fun debounce_run :: "debounce_cfg \<Rightarrow> nat \<Rightarrow> event list \<Rightarrow> debounce_state \<Rightarrow> debounce_state option" where
  "debounce_run cfg fuel [] s = Some s"
| "debounce_run cfg fuel (Wait t # es) s =
     (case runTimers (debounce_fire cfg) fuel t s of
        None \<Rightarrow> None
      | Some s' \<Rightarrow> debounce_run cfg fuel es s')"
| "debounce_run cfg fuel (Call t self args # es) s =
     (case runTimers (debounce_fire cfg) fuel (t - 1) s of
        None \<Rightarrow> None
      | Some (h, v) \<Rightarrow> debounce_run cfg fuel es (debounced cfg self args (h\<lparr>now := max (now h) t\<rparr>, v)))"

section \<open>Clocked\<close>

text \<open>
  The controller is code of the caller. It receives the data object of
  \<^verbatim>\<open>triggerController\<close> and may call the two functions in it: \<^verbatim>\<open>proceed\<close>, the wrapped
  function itself, with whatever \<^verbatim>\<open>this\<close> and arguments it chooses, and
  \<^verbatim>\<open>terminate\<close>. A controller is given by the value passed as \<^verbatim>\<open>controller\<close> and,
  when that value is a function, by the calls it makes for each data object.
\<close>

record clock_data =
  cd_interval :: int
  cd_startTime :: "int option"
  cd_timestamp :: int
  cd_count :: int

record controller_data =
  data_clock :: clock_data
  data_target :: jsval
  data_args :: "jsval list"

datatype ctl_action = CallProceed jsval "jsval list" | CallTerminate

record clocked_cfg =
  clk_proceed :: jsval
  clk_interval :: int
  clk_target :: jsval
  clk_controller :: jsval
  clk_controller_body :: "controller_data \<Rightarrow> ctl_action list"

text \<open>
  \<^verbatim>\<open>createClockedFunction(interval, target, controller)\<close> with receiver \<open>proceed\<close>
  (strict code: the receiver as passed). The interval is sanitised first, which may
  throw; the function then returns \<^verbatim>\<open>(isFunction(proceed) && clocked) || proceed\<close>, and
  \<^verbatim>\<open>clocked\<close> is a function and so truthy.
\<close>

definition createClockedFunction ::
  "jsval \<Rightarrow> jsval \<Rightarrow> jsval \<Rightarrow> jsval \<Rightarrow> (controller_data \<Rightarrow> ctl_action list) \<Rightarrow>
   error + clocked_cfg wrapped" where
  "createClockedFunction proceed interval target controller body =
     (case clockedInterval interval of
        Inl e \<Rightarrow> Inl e
      | Inr i \<Rightarrow>
          if isFunction proceed then
            Inr (Governed
              \<lparr>clk_proceed = proceed,
               clk_interval = i,
               clk_target = getSanitizedTarget target,
               clk_controller = controller,
               clk_controller_body = body\<rparr>)
          else Inr (Returned proceed))"

text \<open>
  \<^verbatim>\<open>let thisArg; let argsArr; let clockCount = null; let clockStart = null;
  let timerId = null;\<close>. The field \<open>reported\<close> is not a variable of the closure: it
  keeps the data objects handed to the controller, in order.
\<close>

record clocked_vars =
  thisArg :: jsval
  argsArr :: "jsval list"
  clockCount :: "int option"
  clockStart :: "int option"
  timerId :: "nat option"
  reported :: "controller_data list"

definition clocked_vars0 :: clocked_vars where
  "clocked_vars0 =
     \<lparr>thisArg = Undefined, argsArr = [], clockCount = None, clockStart = None,
      timerId = None, reported = []\<rparr>"

datatype clocked_cb = TriggerController | TriggerProceed

type_synonym clocked_state = "clocked_cb host \<times> clocked_vars"

definition terminate :: "clocked_state \<Rightarrow> clocked_state" where
  "terminate s =
     (case s of (h, v) \<Rightarrow>
        (clearTimeout (timerId v) h,
         v\<lparr>timerId := None, clockStart := None, clockCount := None\<rparr>))"

definition isActive :: "clocked_state \<Rightarrow> bool" where
  "isActive s = (timerId (snd s) \<noteq> None)"

fun ctl_step :: "clocked_state \<Rightarrow> ctl_action \<Rightarrow> clocked_state" where
  "ctl_step (h, v) (CallProceed ctx args) = (apply_proceed ctx args h, v)"
| "ctl_step (h, v) CallTerminate = terminate (h, v)"

text \<open>\<^verbatim>\<open>++clockCount\<close>: \<^verbatim>\<open>null\<close> counts as \<open>0\<close>.\<close>

definition increment :: "int option \<Rightarrow> int" where
  "increment c = (case c of None \<Rightarrow> 1 | Some n \<Rightarrow> n + 1)"

definition triggerController :: "clocked_cfg \<Rightarrow> clocked_state \<Rightarrow> clocked_state" where
  "triggerController cfg s =
     (case s of (h, v) \<Rightarrow>
        let n = increment (clockCount v);
            d = \<lparr>data_clock =
                   \<lparr>cd_interval = clk_interval cfg, cd_startTime = clockStart v,
                    cd_timestamp = now h, cd_count = n\<rparr>,
                 data_target = thisArg v,
                 data_args = argsArr v\<rparr>;
            v1 = v\<lparr>clockCount := Some n, reported := reported v @ [d]\<rparr>
        in foldl ctl_step (h, v1) (clk_controller_body cfg d))"

definition triggerProceed :: "clocked_state \<Rightarrow> clocked_state" where
  "triggerProceed s = (case s of (h, v) \<Rightarrow> (apply_proceed (thisArg v) (argsArr v) h, v))"

text \<open>\<^verbatim>\<open>clocked(...argumentsArray)\<close> called with \<^verbatim>\<open>this = self\<close> (strict code).\<close>

definition clocked :: "clocked_cfg \<Rightarrow> jsval \<Rightarrow> jsval list \<Rightarrow> clocked_state \<Rightarrow> clocked_state" where
  "clocked cfg self argumentsArray s =
     (case s of (h0, v0) \<Rightarrow>
        let v1 = v0\<lparr>thisArg := js_coalesce (getSanitizedTarget self) (clk_target cfg),
                   argsArr := argumentsArray\<rparr>
        in case (if isActive (h0, v1) then terminate (h0, v1) else (h0, v1)) of
             (h2, v2) \<Rightarrow>
               let v3 = v2\<lparr>clockCount := Some 0, clockStart := Some (now h2)\<rparr>;
                   trigger = (if isFunction (clk_controller cfg) then TriggerController
                              else TriggerProceed)
               in case setInterval trigger (clk_interval cfg) h2 of
                    (i, h3) \<Rightarrow> (h3, v3\<lparr>timerId := Some i\<rparr>))"

fun clocked_fire :: "clocked_cfg \<Rightarrow> clocked_cb \<Rightarrow> jsval list \<Rightarrow> clocked_state \<Rightarrow> clocked_state" where
  "clocked_fire cfg TriggerController args s = triggerController cfg s"
| "clocked_fire cfg TriggerProceed args s = triggerProceed s"

text \<open>A clocked function is called, terminated from outside, or left to the host.\<close>

datatype clocked_event = ClockedCall int jsval "jsval list" | TerminateAt int | WaitUntil int

fun clocked_run :: "clocked_cfg \<Rightarrow> nat \<Rightarrow> clocked_event list \<Rightarrow> clocked_state \<Rightarrow> clocked_state option" where
  "clocked_run cfg fuel [] s = Some s"
| "clocked_run cfg fuel (WaitUntil t # es) s =
     (case runTimers (clocked_fire cfg) fuel t s of
        None \<Rightarrow> None
      | Some s' \<Rightarrow> clocked_run cfg fuel es s')"
| "clocked_run cfg fuel (ClockedCall t self args # es) s =
     (case runTimers (clocked_fire cfg) fuel (t - 1) s of
        None \<Rightarrow> None
      | Some (h, v) \<Rightarrow> clocked_run cfg fuel es (clocked cfg self args (h\<lparr>now := max (now h) t\<rparr>, v)))"
| "clocked_run cfg fuel (TerminateAt t # es) s =
     (case runTimers (clocked_fire cfg) fuel (t - 1) s of
        None \<Rightarrow> None
      | Some (h, v) \<Rightarrow> clocked_run cfg fuel es (terminate (h\<lparr>now := max (now h) t\<rparr>, v)))"

section \<open>Invariants and the configuration of the examples\<close>

text \<open>
  The throttle governor owns at most one pending timer, and \<^verbatim>\<open>timeoutId\<close> is its
  handle. \<open>example_throttle_cfg\<close> is \<^verbatim>\<open>f.throttle(100)\<close> and
  \<open>example_suppress_cfg\<close> is \<^verbatim>\<open>f.throttle(100, true)\<close>.
\<close>

definition throttle_inv :: "throttle_state \<Rightarrow> bool" where
  "throttle_inv s =
     (case s of (h, v) \<Rightarrow>
        length (pending h) \<le> 1 \<and> list_all (\<lambda>x. timeoutId v = Some (handle x)) (pending h))"

definition example_throttle_cfg :: throttle_cfg where
  "example_throttle_cfg =
     \<lparr>thr_proceed = Fn 1 True True, thr_threshold = 100, thr_suppress = False,
      thr_target = Null\<rparr>"

definition example_suppress_cfg :: throttle_cfg where
  "example_suppress_cfg =
     \<lparr>thr_proceed = Fn 1 True True, thr_threshold = 100, thr_suppress = True,
      thr_target = Null\<rparr>"

text \<open>
  The clocked governor is active while the host holds its interval timer. Then
  \<^verbatim>\<open>timerId\<close> is the handle of that one timer and \<^verbatim>\<open>clockCount\<close> and
  \<^verbatim>\<open>clockStart\<close> are set; otherwise no timer is pending and all three are
  \<^verbatim>\<open>null\<close>.
\<close>

definition clocked_inv :: "clocked_state \<Rightarrow> bool" where
  "clocked_inv s =
     (case s of (h, v) \<Rightarrow>
        (case timerId v of
           None \<Rightarrow> pending h = [] \<and> clockCount v = None \<and> clockStart v = None
         | Some i \<Rightarrow>
             (case pending h of
                [x] \<Rightarrow> handle x = i \<and> period x \<noteq> None
              | _ \<Rightarrow> False) \<and>
             i < nextHandle h \<and>
             clockCount v \<noteq> None \<and> clockStart v \<noteq> None))"

text \<open>
  The governors of the examples. \<open>example_debounce_cfg\<close> is
  \<^verbatim>\<open>f.debounce(50, true)\<close>. \<open>clockedTest_cfg\<close> is \<^verbatim>\<open>test.clocked(2000, { id: "test" })\<close>
  of \<^verbatim>\<open>argsAndContextTest01\<close>, without a controller; \<open>clockedWelcome_cfg\<close> is
  \<^verbatim>\<open>contextualWelcome.clocked(500, { greeting: 'Good evening' }, controller)\<close> of
  \<^verbatim>\<open>controllerTest\<close>, whose controller terminates when \<^verbatim>\<open>count > 5\<close> and otherwise
  calls \<^verbatim>\<open>proceed.apply(target, args)\<close>.
\<close>

definition example_debounce_cfg :: debounce_cfg where
  "example_debounce_cfg =
     \<lparr>deb_proceed = Fn 1 True True, deb_delay = 50, deb_immediate = True, deb_target = Null\<rparr>"

definition no_controller :: "controller_data \<Rightarrow> ctl_action list" where
  "no_controller d = []"

definition stop_after_five :: "controller_data \<Rightarrow> ctl_action list" where
  "stop_after_five d =
     (if cd_count (data_clock d) > 5 then [CallTerminate]
      else [CallProceed (data_target d) (data_args d)])"

definition clockedTest_cfg :: clocked_cfg where
  "clockedTest_cfg =
     \<lparr>clk_proceed = Fn 1 True True, clk_interval = 2000, clk_target = Obj 1,
      clk_controller = Undefined, clk_controller_body = no_controller\<rparr>"

definition clockedWelcome_cfg :: clocked_cfg where
  "clockedWelcome_cfg =
     \<lparr>clk_proceed = Fn 1 True True, clk_interval = 500, clk_target = Obj 1,
      clk_controller = Fn 2 True True, clk_controller_body = stop_after_five\<rparr>"

section \<open>Reading a number back\<close>

lemma valueOf_range: "\<bar>valueOf n\<bar> \<le> 2 ^ 53 - 1"
  by transfer simp

lemma valueOf_safeInt: "valueOf (safeInt i) = (if \<bar>i\<bar> \<le> 2 ^ 53 - 1 then i else 0)"
  by transfer simp

lemma digitValue_digitChar: "d < 10 \<Longrightarrow> digitValue (digitChar d) = d"
  by (simp add: digitValue_def digitChar_def)

lemma isDigit_digitChar: "d < 10 \<Longrightarrow> isDigit (digitChar d)"
  by (simp add: isDigit_def digitChar_def)

lemma decimal_all_digits: "\<forall>c \<in> set (decimal n). isDigit c"
proof (induction n rule: decimal.induct)
  case (1 n)
  show ?case
  proof (cases "n < 10")
    case True
    then show ?thesis by (simp add: decimal.simps [of n] isDigit_digitChar)
  next
    case False
    with 1 show ?thesis by (simp add: decimal.simps [of n] isDigit_digitChar)
  qed
qed

lemma decimal_not_Nil: "decimal n \<noteq> []"
  by (subst decimal.simps) simp

lemma digitsValue_snoc: "digitsValue (ds @ [c]) = digitsValue ds * 10 + digitValue c"
  by (simp add: digitsValue_def)

lemma digitsValue_decimal: "digitsValue (decimal n) = n"
proof (induction n rule: decimal.induct)
  case (1 n)
  show ?case
  proof (cases "n < 10")
    case True
    then show ?thesis
      by (simp add: decimal.simps [of n] digitsValue_def digitValue_digitChar)
  next
    case False
    with 1 have "digitsValue (decimal (n div 10)) = n div 10" by simp
    with False show ?thesis
      by (simp add: decimal.simps [of n] digitsValue_snoc digitValue_digitChar)
  qed
qed

lemma takeWhile_decimal: "takeWhile isDigit (decimal n) = decimal n"
  using decimal_all_digits [of n] by (simp add: takeWhile_eq_all_conv)

lemma isDigit_plain: "isDigit c \<Longrightarrow> \<not> isWhiteSpace c \<and> c \<noteq> CHR ''-'' \<and> c \<noteq> CHR ''+''"
  by (auto simp add: isDigit_def isWhiteSpace_def)

lemma parseSigned_decimal: "parseSigned (decimal n) = numberValue (int n)"
proof -
  obtain c cs where dec: "decimal n = c # cs"
    using decimal_not_Nil [of n] by (cases "decimal n") auto
  have "isDigit c" using decimal_all_digits [of n] dec by simp
  then have "c \<noteq> CHR ''-''" "c \<noteq> CHR ''+''" using isDigit_plain by blast+
  then have "parseSigned (c # cs) =
      (let ds = takeWhile isDigit (c # cs)
       in if ds = [] then NaNValue else numberValue (int (digitsValue ds)))"
    by (simp add: parseSigned_def)
  then show ?thesis
    using dec takeWhile_decimal [of n] digitsValue_decimal [of n] by (simp add: Let_def)
qed

lemma parseSigned_minus_decimal: "parseSigned (CHR ''-'' # decimal n) = numberValue (- int n)"
  by (simp add: parseSigned_def Let_def takeWhile_decimal digitsValue_decimal decimal_not_Nil)

lemma dropWhile_decimal: "dropWhile isWhiteSpace (decimal n) = decimal n"
proof -
  obtain c cs where dec: "decimal n = c # cs"
    using decimal_not_Nil [of n] by (cases "decimal n") auto
  have "isDigit c" using decimal_all_digits [of n] dec by simp
  then show ?thesis using dec isDigit_plain by simp
qed

lemma numberValue_exact: "\<bar>x\<bar> < 2 ^ 53 \<Longrightarrow> numberValue x = Integer x"
proof -
  assume "\<bar>x\<bar> < 2 ^ 53"
  then have "nat \<bar>x\<bar> < 2 ^ 53" by (simp add: nat_less_iff)
  then show ?thesis by (simp add: numberValue_def Let_def)
qed

lemma parseInt_Num: "parseInt (Num n) = Inr (Integer (valueOf n))"
proof -
  have small: "\<bar>valueOf n\<bar> < 2 ^ 53" using valueOf_range [of n] by simp
  show ?thesis
  proof (cases "valueOf n < 0")
    case True
    have "\<not> isWhiteSpace CHR ''-''" by (simp add: isWhiteSpace_def)
    then show ?thesis using True small
      by (simp add: parseInt_def numberToString_def parseSigned_minus_decimal numberValue_exact)
  next
    case False
    then show ?thesis using small
      by (simp add: parseInt_def numberToString_def dropWhile_decimal parseSigned_decimal
          numberValue_exact)
  qed
qed


lemma parseInt_Sym: "parseInt (Sym n) = Inl TypeError"
  by (simp add: parseInt_def)



lemma parseInt_rounds: "parseInt (Str ''9007199254740993'') = Inr (Integer 9007199254740992)"
proof -
  have "numberValue 9007199254740993 = Integer 9007199254740992"
    by (simp add: numberValue_def Let_def bitLength.simps)
  then show ?thesis
    by (simp add: parseInt_def parseSigned_def isWhiteSpace_def isDigit_def digitsValue_def
        digitValue_def)
qed

section \<open>Durations\<close>

lemma throttle_sanitised_Num:
  "throttle_getSanitizedPositiveInteger (Num n) = Inr (if 0 < valueOf n then valueOf n else 0)"
  using valueOf_range [of n]
  by (auto simp add: throttle_getSanitizedPositiveInteger_def throttle_getSanitizedInteger_def
      parseInt_Num isSafeInteger_def)

lemma clocked_sanitised_Num:
  "clocked_getSanitizedPositiveInteger (Num n) = Inr (if 0 < valueOf n then valueOf n else 0)"
  by (simp add: clocked_getSanitizedPositiveInteger_def clocked_getSanitizedInteger_def parseInt_Num)


lemma defaults_Num:
  "throttleThreshold (Num n) = Inr (if 0 < valueOf n then valueOf n else 200)"
  "debounceDelay (Num n) = Inr (if 0 < valueOf n then valueOf n else 100)"
  "clockedInterval (Num n) = Inr (if 0 < valueOf n then valueOf n else 200)"
  by (simp_all add: throttleThreshold_def debounceDelay_def clockedInterval_def orDefault_def
      throttle_sanitised_Num clocked_sanitised_Num DEFAULT_THROTTLE_THRESHOLD_def
      DEFAULT_DEBOUNCE_DELAY_def DEFAULT_INTERVAL_def)

lemma duration_Symbol:
  "throttleThreshold (Sym n) = Inl TypeError" "debounceDelay (Sym n) = Inl TypeError"
  "clockedInterval (Sym n) = Inl TypeError"
  by (simp_all add: throttleThreshold_def debounceDelay_def clockedInterval_def
      throttle_getSanitizedPositiveInteger_def throttle_getSanitizedInteger_def
      clocked_getSanitizedPositiveInteger_def clocked_getSanitizedInteger_def parseInt_Sym)




section \<open>The guard\<close>

lemma object_receiver_returned:
  assumes "\<not> isFunction x" and "sloppyThis x = x"
  shows "throttle x threshold flag target = Inr (Returned x)"
    and "staticThrottle x threshold flag target = Inr (Returned x)"
    and "debounce x delay flag target = Inr (Returned x)"
    and "staticDebounce x delay flag target = Inr (Returned x)"
  using assms by (simp_all add: throttle_def staticThrottle_def debounce_def staticDebounce_def)

lemma clocked_receiver_returned:
  assumes "\<not> isFunction x" and "clockedInterval interval = Inr i"
  shows "createClockedFunction x interval target controller body = Inr (Returned x)"
  using assms by (simp add: createClockedFunction_def)

lemma throttle_guard_never_throws:
  "\<not> isFunction (sloppyThis x) \<Longrightarrow>
     throttle x threshold flag target = Inr (Returned (sloppyThis x)) \<and>
     debounce x delay flag target = Inr (Returned (sloppyThis x))"
  by (simp add: throttle_def debounce_def)

text \<open>
  Claim C6 on the code. \<^verbatim>\<open>throttle\<close> and \<^verbatim>\<open>debounce\<close> are not strict code, so
  \<^verbatim>\<open>return proceed\<close> returns the receiver made into an object: \<^verbatim>\<open>Function.throttle(null,
  3000)\<close> returns the global object, and a string or a number comes back as its wrapper
  object. A non-invocable object is returned as it is, whatever the duration.
  \<^verbatim>\<open>clocked\<close>, strict, returns the receiver itself, but it sanitises the interval before
  it tests the receiver, and with a Symbol as interval it throws a \<^verbatim>\<open>TypeError\<close>.
\<close>

theorem receiver_not_returned:
  "staticThrottle Null (Num (safeInt 3000)) Undefined Undefined = Inr (Returned GlobalThis) \<and>
   throttle (Str ''f'') (Num (safeInt 3000)) Undefined Undefined =
     Inr (Returned (Wrapper (Str ''f''))) \<and>
   staticDebounce (Num (safeInt 7)) Undefined Undefined Undefined =
     Inr (Returned (Wrapper (Num (safeInt 7)))) \<and>
   debounce Undefined (Num (safeInt 1000)) (JBool True) Undefined = Inr (Returned GlobalThis) \<and>
   throttle (Obj 4) (Sym 0) Undefined Undefined = Inr (Returned (Obj 4)) \<and>
   createClockedFunction (Num (safeInt 7)) (Num (safeInt 50)) Null Undefined no_controller =
     Inr (Returned (Num (safeInt 7))) \<and>
   createClockedFunction (Obj 4) (Sym 0) Null Undefined no_controller = Inl TypeError"
  by (simp add: throttle_def staticThrottle_def debounce_def staticDebounce_def
      createClockedFunction_def defaults_Num duration_Symbol valueOf_safeInt)

section \<open>Throttle: one invocation per call\<close>

lemma example_throttle_cfg_created:
  "throttle (Fn 1 True True) (Num (safeInt 100)) Undefined Undefined =
     Inr (Governed example_throttle_cfg)"
  by (simp add: throttle_def example_throttle_cfg_def defaults_Num valueOf_safeInt
      getSanitizedTarget_def js_coalesce_def nullish_def)

lemma throttle_clear_pending:
  "throttle_inv (h, v) \<Longrightarrow> pending (clearTimeout (timeoutId v) h) = []"
  by (cases "pending h"; cases "timeoutId v") (auto simp add: throttle_inv_def clearTimeout_def)

lemma throttle_clear_other:
  "now (clearTimeout i h) = now h" "invoked (clearTimeout i h) = invoked h"
  "nextHandle (clearTimeout i h) = nextHandle h"
  by (simp_all add: clearTimeout_def split: option.split)

lemma throttled_immediate:
  assumes "throttle_inv (h, v)"
    and "\<not> truthyTime (timestampRecent v) \<or>
         (\<exists>r. timestampRecent v = Some r \<and> thr_suppress cfg \<and> thr_threshold cfg \<le> now h - r)"
  shows "\<exists>h' v'. throttled cfg self args (h, v) = (h', v') \<and> pending h' = [] \<and>
           invoked h' = invoked h @ [(now h, js_or (thr_target cfg) (getSanitizedTarget (sloppyThis self)), args)] \<and>
           timestampRecent v' = Some (now h) \<and> now h' = now h"
  using assms throttle_clear_pending [OF assms(1)]
  by (auto simp add: throttled_def trigger_def apply_proceed_def throttle_clear_other Let_def
      truthyTime_def split: option.splits)

lemma throttled_deferred:
  assumes "throttle_inv (h, v)" and "timestampRecent v = Some r" and "r \<noteq> 0"
    and "\<not> (thr_suppress cfg \<and> thr_threshold cfg \<le> now h - r)"
  shows "\<exists>h' v'. throttled cfg self args (h, v) = (h', v') \<and>
           pending h' = [\<lparr>handle = nextHandle h, due = now h + max (thr_threshold cfg - (now h - r)) 0,
                          period = None, callback = Trigger, targs = args\<rparr>] \<and>
           invoked h' = invoked h \<and> now h' = now h \<and>
           timeoutId v' = Some (nextHandle h) \<and> timestampRecent v' = Some r \<and>
           timestampCurrent v' = Some (now h) \<and>
           thr_context v' = js_or (thr_target cfg) (getSanitizedTarget (sloppyThis self))"
  using assms throttle_clear_pending [OF assms(1)]
  by (auto simp add: throttled_def setTimeout_def throttle_clear_other Let_def
      truthyTime_def split: option.splits)

lemma throttled_inv: "throttle_inv s \<Longrightarrow> throttle_inv (throttled cfg self args s)"
proof -
  assume a: "throttle_inv s"
  obtain h v where s: "s = (h, v)" by (cases s)
  show ?thesis
  proof (cases "\<not> truthyTime (timestampRecent v) \<or>
         (\<exists>r. timestampRecent v = Some r \<and> thr_suppress cfg \<and> thr_threshold cfg \<le> now h - r)")
    case True
    from throttled_immediate [OF a [unfolded s] True, of self args]
    show ?thesis unfolding s by (auto simp add: throttle_inv_def)
  next
    case False
    then obtain r where "timestampRecent v = Some r" "r \<noteq> 0"
      "\<not> (thr_suppress cfg \<and> thr_threshold cfg \<le> now h - r)"
      by (auto simp add: truthyTime_def split: option.splits)
    from throttled_deferred [OF a [unfolded s] this, of self args]
    show ?thesis unfolding s by (auto simp add: throttle_inv_def)
  qed
qed

lemma trigger_inv: "throttle_inv (h, v) \<Longrightarrow> throttle_inv (throttle_fire cb a (rearm x (h\<lparr>now := t\<rparr>), v))"
  by (cases cb; cases "pending h")
     (auto simp add: throttle_inv_def trigger_def rearm_def apply_proceed_def split: option.splits)

lemma throttle_inv_now: "throttle_inv (h, v) \<Longrightarrow> throttle_inv (h\<lparr>now := t\<rparr>, v)"
  by (simp add: throttle_inv_def)

lemma runTimers_throttle_inv:
  "throttle_inv s \<Longrightarrow> runTimers throttle_fire fuel t s = Some s' \<Longrightarrow> throttle_inv s'"
proof (induction fuel arbitrary: s)
  case 0
  then show ?case by simp
next
  case (Suc n)
  obtain h v where s: "s = (h, v)" by (cases s)
  have i: "throttle_inv (h, v)" using Suc.prems(1) unfolding s .
  show ?case
  proof (cases "earliest (pending h)")
    case None
    with Suc.prems(2) throttle_inv_now [OF i] show ?thesis unfolding s by auto
  next
    case (Some x)
    show ?thesis
    proof (cases "t < due x")
      case True
      with Some Suc.prems(2) throttle_inv_now [OF i] show ?thesis unfolding s by auto
    next
      case False
      let ?s1 = "throttle_fire (callback x) (targs x) (rearm x (h\<lparr>now := max (now h) (due x)\<rparr>), v)"
      have "throttle_inv ?s1" using i by (rule trigger_inv)
      moreover from False Some Suc.prems(2) have "runTimers throttle_fire n t ?s1 = Some s'"
        unfolding s by simp
      ultimately show ?thesis by (rule Suc.IH)
    qed
  qed
qed

lemma throttle_run_inv:
  "throttle_inv s \<Longrightarrow> throttle_run cfg fuel es s = Some s' \<Longrightarrow> throttle_inv s'"
proof (induction es arbitrary: s)
  case Nil
  then show ?case by simp
next
  case (Cons e es)
  show ?case
  proof (cases e)
    case (Call t self args)
    with Cons.prems(2) obtain h v where r: "runTimers throttle_fire fuel (t - 1) s = Some (h, v)"
      and k: "throttle_run cfg fuel es (throttled cfg self args (h\<lparr>now := max (now h) t\<rparr>, v)) = Some s'"
      by (auto split: option.splits)
    from runTimers_throttle_inv [OF Cons.prems(1) r]
    have "throttle_inv (throttled cfg self args (h\<lparr>now := max (now h) t\<rparr>, v))"
      by (simp add: throttle_inv_now throttled_inv)
    then show ?thesis using k by (rule Cons.IH)
  next
    case (Wait t)
    with Cons.prems(2) obtain s1 where r: "runTimers throttle_fire fuel t s = Some s1"
      and k: "throttle_run cfg fuel es s1 = Some s'"
      by (auto split: option.splits)
    from runTimers_throttle_inv [OF Cons.prems(1) r] k show ?thesis by (rule Cons.IH)
  qed
qed

lemma throttle_inv_init: "throttle_inv (host0, throttle_vars0)"
  by (simp add: throttle_inv_def host0_def)

text \<open>
  Claim C5. In every state the governor can reach, a call of the throttled function does
  exactly one of two things: it invokes the wrapped function at once, with this call's
  context and arguments, and leaves no timer pending; or it invokes nothing and leaves
  exactly one timer pending, its own, due after \<open>max (threshold - gap) 0\<close> ms and carrying
  this call's arguments. Either way a timer left by an earlier call is gone. For calls at
  \<open>base\<close>, \<open>base + 50\<close> and \<open>base + 80\<close> with threshold 100 and no suppression
  (\<open>base\<close> is the reading of \<^verbatim>\<open>Date.now()\<close> at the first call, which is positive), the
  wrapped function is invoked at \<open>base\<close> with the first arguments and exactly once more,
  at \<open>base + 100\<close>, with the arguments of the call at \<open>base + 80\<close>.
\<close>

theorem throttle_one_invocation_per_call:
  "(throttle_run cfg fuel es (host0, throttle_vars0) = Some (h, v) \<longrightarrow> throttle_inv (h, v)) \<and>
   (throttle_inv (h, v) \<longrightarrow>
      (\<exists>h' v'. throttled cfg self args (h, v) = (h', v') \<and> throttle_inv (h', v') \<and>
         ((invoked h' = invoked h @ [(now h, js_or (thr_target cfg) (getSanitizedTarget (sloppyThis self)), args)] \<and>
           pending h' = []) \<or>
          (invoked h' = invoked h \<and>
           (\<exists>r. timestampRecent v = Some r \<and>
              pending h' =
                [\<lparr>handle = nextHandle h,
                  due = now h + max (thr_threshold cfg - (now h - r)) 0,
                  period = None, callback = Trigger, targs = args\<rparr>]))))) \<and>
   (0 < base \<and> base + 100 \<le> t \<longrightarrow>
      (\<exists>h v. throttle_run example_throttle_cfg (Suc (Suc n))
                [Call base c a0, Call (base + 50) c a1, Call (base + 80) c a2, Wait t]
                (host0, throttle_vars0) = Some (h, v) \<and>
             invoked h = [(base, getSanitizedTarget (sloppyThis c), a0), (base + 100, getSanitizedTarget (sloppyThis c), a2)]))"
proof -
  have step: "\<exists>h' v'. throttled cfg self args (h, v) = (h', v') \<and> throttle_inv (h', v') \<and>
         ((invoked h' = invoked h @ [(now h, js_or (thr_target cfg) (getSanitizedTarget (sloppyThis self)), args)] \<and>
           pending h' = []) \<or>
          (invoked h' = invoked h \<and>
           (\<exists>r. timestampRecent v = Some r \<and>
              pending h' =
                [\<lparr>handle = nextHandle h,
                  due = now h + max (thr_threshold cfg - (now h - r)) 0,
                  period = None, callback = Trigger, targs = args\<rparr>])))"
    if a: "throttle_inv (h, v)"
  proof (cases "\<not> truthyTime (timestampRecent v) \<or>
         (\<exists>r. timestampRecent v = Some r \<and> thr_suppress cfg \<and> thr_threshold cfg \<le> now h - r)")
    case True
    from throttled_immediate [OF a True, of self args] throttled_inv [OF a, of cfg self args]
    show ?thesis by auto
  next
    case False
    then obtain r where r: "timestampRecent v = Some r" "r \<noteq> 0"
      "\<not> (thr_suppress cfg \<and> thr_threshold cfg \<le> now h - r)"
      by (auto simp add: truthyTime_def split: option.splits)
    from throttled_deferred [OF a r, of self args] throttled_inv [OF a, of cfg self args] r(1)
    show ?thesis by auto
  qed
  have run: "\<exists>h v. throttle_run example_throttle_cfg (Suc (Suc n))
                [Call base c a0, Call (base + 50) c a1, Call (base + 80) c a2, Wait t]
                (host0, throttle_vars0) = Some (h, v) \<and>
             invoked h = [(base, getSanitizedTarget (sloppyThis c), a0), (base + 100, getSanitizedTarget (sloppyThis c), a2)]"
    if "0 < base \<and> base + 100 \<le> t"
    using that
    by (simp add: example_throttle_cfg_def host0_def throttle_vars0_def throttled_def trigger_def
        truthyTime_def clearTimeout_def setTimeout_def apply_proceed_def js_or_def rearm_def Let_def)
  have reach: "throttle_run cfg fuel es (host0, throttle_vars0) = Some (h, v) \<longrightarrow> throttle_inv (h, v)"
    using throttle_run_inv [OF throttle_inv_init] by blast
  from reach step run show ?thesis by blast
qed

text \<open>The same for a first call at 1000 and for the calls at 1000, 1050 and 1080.\<close>

theorem throttle_one_invocation_per_call_witness:
  "throttle_run example_throttle_cfg 0 [] (host0, throttle_vars0) = Some (host0, throttle_vars0) \<and>
   throttle_inv (host0, throttle_vars0) \<and>
   throttle_inv (host0\<lparr>now := 1000\<rparr>, throttle_vars0) \<and>
   throttled example_throttle_cfg (Obj 7) [Str ''a''] (host0\<lparr>now := 1000\<rparr>, throttle_vars0) =
     (\<lparr>now = 1000, nextHandle = 1, pending = [], invoked = [(1000, Obj 7, [Str ''a''])]\<rparr>,
      \<lparr>timeoutId = None, timeGap = None, timestampRecent = Some 1000,
       timestampCurrent = Some 1000, thr_context = Obj 7\<rparr>) \<and>
   (\<exists>h v. throttle_run example_throttle_cfg 2
            [Call 1000 (Obj 7) [Str ''a''], Call 1050 (Obj 7) [Str ''b''],
             Call 1080 (Obj 7) [Str ''c''], Wait 1100]
            (host0, throttle_vars0) = Some (h, v) \<and>
          invoked h = [(1000, Obj 7, [Str ''a'']), (1100, Obj 7, [Str ''c''])])"
proof -
  have i: "throttle_inv (host0\<lparr>now := 1000\<rparr>, throttle_vars0)"
    by (simp add: throttle_inv_def host0_def)
  have e: "throttled example_throttle_cfg (Obj 7) [Str ''a''] (host0\<lparr>now := 1000\<rparr>, throttle_vars0) =
     (\<lparr>now = 1000, nextHandle = 1, pending = [], invoked = [(1000, Obj 7, [Str ''a''])]\<rparr>,
      \<lparr>timeoutId = None, timeGap = None, timestampRecent = Some 1000,
       timestampCurrent = Some 1000, thr_context = Obj 7\<rparr>)"
    by (simp add: example_throttle_cfg_def host0_def throttle_vars0_def throttled_def trigger_def
        truthyTime_def clearTimeout_def apply_proceed_def js_or_def getSanitizedTarget_def
        js_coalesce_def nullish_def)
  have two: "Suc (Suc 0) = 2" by simp
  show ?thesis
    using i e
      throttle_one_invocation_per_call [of example_throttle_cfg 0 "[]" "host0\<lparr>now := 1000\<rparr>"
        throttle_vars0 "Obj 7" "[Str ''a'']" 1000 1100 0 "Obj 7" "[Str ''a'']" "[Str ''b'']"
        "[Str ''c'']"]
      throttle_one_invocation_per_call [of example_throttle_cfg 0 "[]" host0 throttle_vars0]
    by (simp add: two getSanitizedTarget_def js_coalesce_def nullish_def)
qed

lemma trailing_fire_delivery:
  assumes "throttle_inv (h, v)" and "timestampRecent v = Some r" and "r \<noteq> 0"
    and "\<not> (thr_suppress cfg \<and> thr_threshold cfg \<le> now h - r)"
    and "now h + max (thr_threshold cfg - (now h - r)) 0 \<le> t"
  shows "\<exists>h' v'. runTimers throttle_fire (Suc (Suc n)) t (throttled cfg self args (h, v)) = Some (h', v') \<and>
           invoked h' = invoked h @
             [(now h + max (thr_threshold cfg - (now h - r)) 0,
               js_or (thr_target cfg) (getSanitizedTarget (sloppyThis self)), args)]"
proof -
  from throttled_deferred [OF assms(1-4), of self args]
  obtain h1 v1 where s1: "throttled cfg self args (h, v) = (h1, v1)"
    and p: "pending h1 = [\<lparr>handle = nextHandle h, due = now h + max (thr_threshold cfg - (now h - r)) 0,
                          period = None, callback = Trigger, targs = args\<rparr>]"
    and rest: "invoked h1 = invoked h" "now h1 = now h"
      "thr_context v1 = js_or (thr_target cfg) (getSanitizedTarget (sloppyThis self))"
    by blast
  show ?thesis
    unfolding s1 using p rest assms(5)
    by (simp add: rearm_def trigger_def apply_proceed_def max_def)
qed

lemma example_suppress_cfg_created:
  "throttle (Fn 1 True True) (Num (safeInt 100)) (JBool True) Undefined =
     Inr (Governed example_suppress_cfg)"
  by (simp add: throttle_def example_suppress_cfg_def defaults_Num valueOf_safeInt
      getSanitizedTarget_def js_coalesce_def nullish_def)

text \<open>
  Claim C4 on the code: \<^verbatim>\<open>f.throttle(100)\<close> and calls at 1000, 1001 and 1101. The
  call at 1001 schedules the trailing invocation for 1100, which runs then with the
  arguments and the context of that call. \<^verbatim>\<open>trigger\<close> copies \<^verbatim>\<open>timestampCurrent\<close>,
  read at the call, so after the invocation at 1100 \<^verbatim>\<open>timestampRecent\<close> is 1001 and
  not 1100. The call at 1101 therefore sees a gap of 100 and is forwarded at 1101, one
  millisecond after the invocation at 1100: through a timer of 0 ms, or directly by
  \<^verbatim>\<open>f.throttle(100, true)\<close>.
\<close>

theorem trailing_fire_stale_timestamp:
  "throttle_run example_throttle_cfg 2
     [Call 1000 (Obj 7) [Str ''a''], Call 1001 (Obj 7) [Str ''b''], Wait 1100]
     (host0, throttle_vars0) =
   Some (\<lparr>now = 1100, nextHandle = 2, pending = [],
          invoked = [(1000, Obj 7, [Str ''a'']), (1100, Obj 7, [Str ''b''])]\<rparr>,
         \<lparr>timeoutId = Some 1, timeGap = Some 1, timestampRecent = Some 1001,
          timestampCurrent = Some 1001, thr_context = Obj 7\<rparr>) \<and>
   throttle_run example_throttle_cfg 2
     [Call 1000 (Obj 7) [Str ''a''], Call 1001 (Obj 7) [Str ''b''], Wait 1100,
      Call 1101 (Obj 7) [Str ''c''], Wait 1101]
     (host0, throttle_vars0) =
   Some (\<lparr>now = 1101, nextHandle = 3, pending = [],
          invoked = [(1000, Obj 7, [Str ''a'']), (1100, Obj 7, [Str ''b'']),
                     (1101, Obj 7, [Str ''c''])]\<rparr>,
         \<lparr>timeoutId = Some 2, timeGap = Some 100, timestampRecent = Some 1101,
          timestampCurrent = Some 1101, thr_context = Obj 7\<rparr>) \<and>
   throttle_run example_suppress_cfg 2
     [Call 1000 (Obj 7) [Str ''a''], Call 1001 (Obj 7) [Str ''b''], Wait 1100,
      Call 1101 (Obj 7) [Str ''c'']]
     (host0, throttle_vars0) =
   Some (\<lparr>now = 1101, nextHandle = 2, pending = [],
          invoked = [(1000, Obj 7, [Str ''a'']), (1100, Obj 7, [Str ''b'']),
                     (1101, Obj 7, [Str ''c''])]\<rparr>,
         \<lparr>timeoutId = Some 1, timeGap = Some 100, timestampRecent = Some 1101,
          timestampCurrent = Some 1101, thr_context = Obj 7\<rparr>)"
proof -
  note defs = eval_nat_numeral example_throttle_cfg_def example_suppress_cfg_def host0_def
    throttle_vars0_def throttled_def trigger_def truthyTime_def clearTimeout_def setTimeout_def
    apply_proceed_def js_or_def rearm_def getSanitizedTarget_def js_coalesce_def nullish_def
    Let_def
  have r1: "throttle_run example_throttle_cfg 2
     [Call 1000 (Obj 7) [Str ''a''], Call 1001 (Obj 7) [Str ''b''], Wait 1100]
     (host0, throttle_vars0) =
   Some (\<lparr>now = 1100, nextHandle = 2, pending = [],
          invoked = [(1000, Obj 7, [Str ''a'']), (1100, Obj 7, [Str ''b''])]\<rparr>,
         \<lparr>timeoutId = Some 1, timeGap = Some 1, timestampRecent = Some 1001,
          timestampCurrent = Some 1001, thr_context = Obj 7\<rparr>)"
    by (simp add: defs)
  have r2: "throttle_run example_throttle_cfg 2
     [Call 1000 (Obj 7) [Str ''a''], Call 1001 (Obj 7) [Str ''b''], Wait 1100,
      Call 1101 (Obj 7) [Str ''c''], Wait 1101]
     (host0, throttle_vars0) =
   Some (\<lparr>now = 1101, nextHandle = 3, pending = [],
          invoked = [(1000, Obj 7, [Str ''a'']), (1100, Obj 7, [Str ''b'']),
                     (1101, Obj 7, [Str ''c''])]\<rparr>,
         \<lparr>timeoutId = Some 2, timeGap = Some 100, timestampRecent = Some 1101,
          timestampCurrent = Some 1101, thr_context = Obj 7\<rparr>)"
    by (simp add: defs)
  have r3: "throttle_run example_suppress_cfg 2
     [Call 1000 (Obj 7) [Str ''a''], Call 1001 (Obj 7) [Str ''b''], Wait 1100,
      Call 1101 (Obj 7) [Str ''c'']]
     (host0, throttle_vars0) =
   Some (\<lparr>now = 1101, nextHandle = 2, pending = [],
          invoked = [(1000, Obj 7, [Str ''a'']), (1100, Obj 7, [Str ''b'']),
                     (1101, Obj 7, [Str ''c''])]\<rparr>,
         \<lparr>timeoutId = Some 1, timeGap = Some 100, timestampRecent = Some 1101,
          timestampCurrent = Some 1101, thr_context = Obj 7\<rparr>)"
    by (simp add: defs)
  from r1 r2 r3 show ?thesis by (simp only: simp_thms)
qed

section \<open>Debounce: the leading edge\<close>

text \<open>
  Claim C3 on the code: \<^verbatim>\<open>debounce(50, true)\<close> and calls at 1000 and 1010 (delay 50,
  leading edge). The first call is forwarded at 1000. The second call finds
  \<^verbatim>\<open>timeoutId\<close> still set, cancels the re-arm timer and schedules \<^verbatim>\<open>debounceTrigger\<close>:
  it is forwarded as well, at 1060, with its own arguments. With a third call at 1060,
  that call either arrives before the timer due at 1060, replaces it and is forwarded at
  1110, or arrives after it and is forwarded at 1060 next to the second call.
\<close>

theorem debounce_leading_burst:
  "debounce (Fn 1 True True) (Num (safeInt 50)) (JBool True) Undefined =
     Inr (Governed example_debounce_cfg) \<and>
   debounce_run example_debounce_cfg 3
     [Call 1000 (Obj 7) [Str ''a''], Call 1010 (Obj 7) [Str ''b''], Wait 1200]
     (host0, debounce_vars0) =
   Some (\<lparr>now = 1200, nextHandle = 4, pending = [],
          invoked = [(1000, Obj 7, [Str ''a'']), (1060, Obj 7, [Str ''b''])]\<rparr>,
         \<lparr>timeoutResetId = Some 2, deb_timeoutId = None, deb_context = Obj 7\<rparr>) \<and>
   debounce_run example_debounce_cfg 3
     [Call 1000 (Obj 7) [Str ''a''], Call 1010 (Obj 7) [Str ''b''], Call 1060 (Obj 7) [Str ''c''],
      Wait 1200]
     (host0, debounce_vars0) =
   Some (\<lparr>now = 1200, nextHandle = 5, pending = [],
          invoked = [(1000, Obj 7, [Str ''a'']), (1110, Obj 7, [Str ''c''])]\<rparr>,
         \<lparr>timeoutResetId = Some 2, deb_timeoutId = None, deb_context = Obj 7\<rparr>) \<and>
   debounce_run example_debounce_cfg 3
     [Call 1000 (Obj 7) [Str ''a''], Call 1010 (Obj 7) [Str ''b''], Wait 1060,
      Call 1060 (Obj 7) [Str ''c''], Wait 1200]
     (host0, debounce_vars0) =
   Some (\<lparr>now = 1200, nextHandle = 6, pending = [],
          invoked = [(1000, Obj 7, [Str ''a'']), (1060, Obj 7, [Str ''b'']),
                     (1060, Obj 7, [Str ''c''])]\<rparr>,
         \<lparr>timeoutResetId = Some 5, deb_timeoutId = None, deb_context = Obj 7\<rparr>)"
proof -
  have c: "debounce (Fn 1 True True) (Num (safeInt 50)) (JBool True) Undefined =
     Inr (Governed example_debounce_cfg)"
    by (simp add: debounce_def example_debounce_cfg_def defaults_Num valueOf_safeInt
        getSanitizedTarget_def js_coalesce_def nullish_def)
  note defs = eval_nat_numeral host0_def debounce_vars0_def example_debounce_cfg_def debounced_def
    debounceTrigger_def immediateTrigger_def resetTimeoutId_def clearTimeout_def setTimeout_def
    apply_proceed_def rearm_def js_or_def getSanitizedTarget_def js_coalesce_def nullish_def Let_def
  have r1: "debounce_run example_debounce_cfg 3
     [Call 1000 (Obj 7) [Str ''a''], Call 1010 (Obj 7) [Str ''b''], Wait 1200]
     (host0, debounce_vars0) =
   Some (\<lparr>now = 1200, nextHandle = 4, pending = [],
          invoked = [(1000, Obj 7, [Str ''a'']), (1060, Obj 7, [Str ''b''])]\<rparr>,
         \<lparr>timeoutResetId = Some 2, deb_timeoutId = None, deb_context = Obj 7\<rparr>)"
    by (simp add: defs)
  have r2: "debounce_run example_debounce_cfg 3
     [Call 1000 (Obj 7) [Str ''a''], Call 1010 (Obj 7) [Str ''b''], Call 1060 (Obj 7) [Str ''c''],
      Wait 1200]
     (host0, debounce_vars0) =
   Some (\<lparr>now = 1200, nextHandle = 5, pending = [],
          invoked = [(1000, Obj 7, [Str ''a'']), (1110, Obj 7, [Str ''c''])]\<rparr>,
         \<lparr>timeoutResetId = Some 2, deb_timeoutId = None, deb_context = Obj 7\<rparr>)"
    by (simp add: defs)
  have r3: "debounce_run example_debounce_cfg 3
     [Call 1000 (Obj 7) [Str ''a''], Call 1010 (Obj 7) [Str ''b''], Wait 1060,
      Call 1060 (Obj 7) [Str ''c''], Wait 1200]
     (host0, debounce_vars0) =
   Some (\<lparr>now = 1200, nextHandle = 6, pending = [],
          invoked = [(1000, Obj 7, [Str ''a'']), (1060, Obj 7, [Str ''b'']),
                     (1060, Obj 7, [Str ''c''])]\<rparr>,
         \<lparr>timeoutResetId = Some 5, deb_timeoutId = None, deb_context = Obj 7\<rparr>)"
    by (simp add: defs)
  from c r1 r2 r3 show ?thesis by (simp only: simp_thms)
qed

section \<open>Clocked: the state machine\<close>

lemma clocked_inv_active:
  "clocked_inv (h, v) \<Longrightarrow> timerId v = Some i \<Longrightarrow>
     \<exists>x. pending h = [x] \<and> handle x = i \<and> period x \<noteq> None"
  by (auto simp add: clocked_inv_def split: list.splits)

lemma clocked_inv_inactive:
  "clocked_inv (h, v) \<Longrightarrow> timerId v = None \<Longrightarrow>
     pending h = [] \<and> clockCount v = None \<and> clockStart v = None"
  by (simp add: clocked_inv_def)

lemma terminate_result:
  assumes "clocked_inv (h, v)"
  shows "terminate (h, v) =
     (h\<lparr>pending := []\<rparr>, v\<lparr>timerId := None, clockStart := None, clockCount := None\<rparr>)"
proof (cases "timerId v")
  case None
  with clocked_inv_inactive [OF assms None] show ?thesis
    by (simp add: terminate_def clearTimeout_def)
next
  case (Some i)
  with clocked_inv_active [OF assms Some] show ?thesis
    by (auto simp add: terminate_def clearTimeout_def)
qed

lemma terminate_inv: "clocked_inv s \<Longrightarrow> clocked_inv (terminate s)"
  by (cases s) (simp add: terminate_result, simp add: clocked_inv_def)

lemma terminate_inactive: "clocked_inv s \<Longrightarrow> \<not> isActive s \<Longrightarrow> terminate s = s"
  by (cases s) (auto simp add: clocked_inv_def terminate_def clearTimeout_def isActive_def)

lemma terminate_twice: "terminate (terminate s) = terminate s"
  by (cases s) (simp add: terminate_def clearTimeout_def)

lemma clocked_result:
  assumes "clocked_inv (h, v)"
  shows "clocked cfg self args (h, v) =
     (h\<lparr>nextHandle := nextHandle h + 1,
        pending := [\<lparr>handle = nextHandle h, due = now h + clk_interval cfg,
                     period = Some (clk_interval cfg),
                     callback = (if isFunction (clk_controller cfg) then TriggerController else TriggerProceed),
                     targs = []\<rparr>]\<rparr>,
      v\<lparr>thisArg := js_coalesce (getSanitizedTarget self) (clk_target cfg), argsArr := args,
        clockCount := Some 0, clockStart := Some (now h), timerId := Some (nextHandle h)\<rparr>)"
proof -
  let ?v1 = "v\<lparr>thisArg := js_coalesce (getSanitizedTarget self) (clk_target cfg), argsArr := args\<rparr>"
  have i1: "clocked_inv (h, ?v1)"
    using assms by (auto simp add: clocked_inv_def split: option.splits list.splits)
  show ?thesis
  proof (cases "timerId v")
    case None
    with clocked_inv_inactive [OF assms None] show ?thesis
      by (simp add: clocked_def isActive_def setInterval_def Let_def)
  next
    case (Some i)
    then show ?thesis
      by (simp add: clocked_def isActive_def terminate_result [OF i1] setInterval_def Let_def)
  qed
qed

lemma clocked_inv_clocked: "clocked_inv s \<Longrightarrow> clocked_inv (clocked cfg self args s)"
  by (cases s) (simp add: clocked_result, simp add: clocked_inv_def)

lemma ctl_step_inv: "clocked_inv s \<Longrightarrow> clocked_inv (ctl_step s a)"
proof (cases a)
  case (CallProceed c xs)
  assume "clocked_inv s"
  with CallProceed show ?thesis
    by (cases s) (auto simp add: clocked_inv_def apply_proceed_def split: option.splits)
next
  case CallTerminate
  assume "clocked_inv s"
  with CallTerminate show ?thesis by (cases s) (simp add: terminate_inv)
qed

lemma ctl_steps_inv: "clocked_inv s \<Longrightarrow> clocked_inv (foldl ctl_step s as)"
  by (induction as arbitrary: s) (simp_all add: ctl_step_inv)

lemma ctl_steps_reported: "reported (snd (foldl ctl_step s as)) = reported (snd s)"
proof (induction as arbitrary: s)
  case Nil
  then show ?case by simp
next
  case (Cons a as)
  have "reported (snd (ctl_step s a)) = reported (snd s)"
    by (cases s; cases a) (simp_all add: terminate_def)
  then show ?case using Cons.IH by simp
qed

lemma triggerController_inv:
  "clocked_inv s \<Longrightarrow> isActive s \<Longrightarrow> clocked_inv (triggerController cfg s)"
proof -
  assume a: "clocked_inv s" and b: "isActive s"
  obtain h v where s: "s = (h, v)" by (cases s)
  have "clocked_inv (h, v\<lparr>clockCount := Some n, reported := r\<rparr>)" for n r
    using a b unfolding s by (auto simp add: clocked_inv_def isActive_def split: option.splits)
  then show ?thesis
    unfolding s by (simp add: triggerController_def Let_def ctl_steps_inv)
qed

lemma triggerProceed_inv: "clocked_inv s \<Longrightarrow> clocked_inv (triggerProceed s)"
  by (cases s) (auto simp add: clocked_inv_def triggerProceed_def apply_proceed_def split: option.splits)

lemma clocked_fire_inv:
  "clocked_inv s \<Longrightarrow> isActive s \<Longrightarrow> clocked_inv (clocked_fire cfg cb a s)"
  by (cases cb) (simp_all add: triggerController_inv triggerProceed_inv)

lemma rearm_inv:
  assumes "clocked_inv (h, v)" and "pending h = [x]"
  shows "clocked_inv (rearm x (h\<lparr>now := t\<rparr>), v) \<and> isActive (rearm x (h\<lparr>now := t\<rparr>), v)"
proof -
  from assms obtain i where i: "timerId v = Some i"
    by (cases "timerId v") (auto simp add: clocked_inv_def)
  from clocked_inv_active [OF assms(1) i] assms(2) obtain p where "period x = Some p" "handle x = i"
    by auto
  with assms i show ?thesis
    by (simp add: clocked_inv_def rearm_def isActive_def)
qed

lemma runTimers_clocked_inv:
  "clocked_inv s \<Longrightarrow> runTimers (clocked_fire cfg) fuel t s = Some s' \<Longrightarrow> clocked_inv s'"
proof (induction fuel arbitrary: s)
  case 0
  then show ?case by simp
next
  case (Suc n)
  obtain h v where s: "s = (h, v)" by (cases s)
  have idle: "clocked_inv (h\<lparr>now := max (now h) t\<rparr>, v)"
    using Suc.prems(1) unfolding s
    by (auto simp add: clocked_inv_def split: option.splits list.splits)
  show ?case
  proof (cases "pending h")
    case Nil
    with Suc.prems(2) idle show ?thesis unfolding s by auto
  next
    case (Cons x xs)
    with Suc.prems(1) have px: "pending h = [x]"
      unfolding s by (auto simp add: clocked_inv_def split: option.splits list.splits)
    show ?thesis
    proof (cases "t < due x")
      case True
      with px Suc.prems(2) idle show ?thesis unfolding s by auto
    next
      case False
      let ?s1 = "clocked_fire cfg (callback x) (targs x) (rearm x (h\<lparr>now := max (now h) (due x)\<rparr>), v)"
      from rearm_inv [OF Suc.prems(1) [unfolded s] px]
      have "clocked_inv ?s1" by (simp add: clocked_fire_inv)
      moreover from False px Suc.prems(2) have "runTimers (clocked_fire cfg) n t ?s1 = Some s'"
        unfolding s by simp
      ultimately show ?thesis by (rule Suc.IH)
    qed
  qed
qed

lemma clocked_inv_now: "clocked_inv (h, v) \<Longrightarrow> clocked_inv (h\<lparr>now := t\<rparr>, v)"
  by (auto simp add: clocked_inv_def split: option.splits list.splits)

lemma clocked_run_inv:
  "clocked_inv s \<Longrightarrow> clocked_run cfg fuel es s = Some s' \<Longrightarrow> clocked_inv s'"
proof (induction es arbitrary: s)
  case Nil
  then show ?case by simp
next
  case (Cons e es)
  show ?case
  proof (cases e)
    case (ClockedCall t self args)
    with Cons.prems(2) obtain h v where r: "runTimers (clocked_fire cfg) fuel (t - 1) s = Some (h, v)"
      and k: "clocked_run cfg fuel es (clocked cfg self args (h\<lparr>now := max (now h) t\<rparr>, v)) = Some s'"
      by (auto split: option.splits)
    from runTimers_clocked_inv [OF Cons.prems(1) r]
    have "clocked_inv (clocked cfg self args (h\<lparr>now := max (now h) t\<rparr>, v))"
      by (simp add: clocked_inv_now clocked_inv_clocked)
    then show ?thesis using k by (rule Cons.IH)
  next
    case (TerminateAt t)
    with Cons.prems(2) obtain h v where r: "runTimers (clocked_fire cfg) fuel (t - 1) s = Some (h, v)"
      and k: "clocked_run cfg fuel es (terminate (h\<lparr>now := max (now h) t\<rparr>, v)) = Some s'"
      by (auto split: option.splits)
    from runTimers_clocked_inv [OF Cons.prems(1) r]
    have "clocked_inv (terminate (h\<lparr>now := max (now h) t\<rparr>, v))"
      by (simp add: clocked_inv_now terminate_inv)
    then show ?thesis using k by (rule Cons.IH)
  next
    case (WaitUntil t)
    with Cons.prems(2) obtain s1 where r: "runTimers (clocked_fire cfg) fuel t s = Some s1"
      and k: "clocked_run cfg fuel es s1 = Some s'"
      by (auto split: option.splits)
    from runTimers_clocked_inv [OF Cons.prems(1) r] k show ?thesis by (rule Cons.IH)
  qed
qed

lemma clocked_inv_init: "clocked_inv (host0, clocked_vars0)"
  by (simp add: clocked_inv_def host0_def clocked_vars0_def)

lemma clockedInterval_pos: "clockedInterval v = Inr i \<Longrightarrow> 0 < i"
  by (auto simp add: clockedInterval_def orDefault_def clocked_getSanitizedPositiveInteger_def
      DEFAULT_INTERVAL_def max_def split: sum.splits if_splits)

lemma clockedTest_cfg_created:
  "createClockedFunction (Fn 1 True True) (Num (safeInt 2000)) (Obj 1) Undefined no_controller =
     Inr (Governed clockedTest_cfg)"
  by (simp add: createClockedFunction_def clockedTest_cfg_def defaults_Num valueOf_safeInt
      getSanitizedTarget_def js_coalesce_def nullish_def)

lemma clockedWelcome_cfg_created:
  "createClockedFunction (Fn 1 True True) (Num (safeInt 500)) (Obj 1) (Fn 2 True True)
     stop_after_five = Inr (Governed clockedWelcome_cfg)"
  by (simp add: createClockedFunction_def clockedWelcome_cfg_def defaults_Num valueOf_safeInt
      getSanitizedTarget_def js_coalesce_def nullish_def)

text \<open>
  \<^verbatim>\<open>test.clocked(2000, { id: "test" })\<close> called with another object as \<^verbatim>\<open>this\<close>
  captures that object, not the target given at composition time.
\<close>

theorem clocked_context_counterexample:
  "clk_target clockedTest_cfg = Obj 1 \<and>
   thisArg (snd (clocked clockedTest_cfg (Obj 2) [Str ''quick''] (host0, clocked_vars0))) = Obj 2"
  by (simp add: clocked_result [OF clocked_inv_init] clockedTest_cfg_def getSanitizedTarget_def
      js_coalesce_def nullish_def)

lemma triggerController_reported:
  "\<exists>d. reported (snd (triggerController cfg (h, v))) = reported v @ [d] \<and>
       cd_count (data_clock d) = increment (clockCount v) \<and>
       cd_startTime (data_clock d) = clockStart v \<and>
       data_target d = thisArg v \<and> data_args d = argsArr v"
  by (simp add: triggerController_def Let_def ctl_steps_reported)

lemma triggerProceed_result:
  "triggerProceed (h, v) = (h\<lparr>invoked := invoked h @ [(now h, thisArg v, argsArr v)]\<rparr>, v)"
  by (simp add: triggerProceed_def apply_proceed_def)

lemma clocked_thisArg:
  "thisArg (snd (clocked cfg self args s)) =
     (if self = Undefined \<or> self = Null then clk_target cfg else self)"
  by (cases s)
     (auto simp add: clocked_def Let_def isActive_def terminate_def setInterval_def
        getSanitizedTarget_def js_coalesce_def nullish_def split: prod.splits)

text \<open>
  Claim C1, as the code has it. For every call of a clocked function, the context
  captured for the cycle is the \<^verbatim>\<open>this\<close> of the call when that is neither \<^verbatim>\<open>null\<close> nor
  \<^verbatim>\<open>undefined\<close>, and the target fixed at composition time otherwise; the captured
  arguments are those of the call. A tick passes the captured context and arguments to
  the wrapped function, or reports them as \<^verbatim>\<open>target\<close> and \<^verbatim>\<open>args\<close> to the controller.
\<close>

theorem clocked_context:
  "thisArg (snd (clocked cfg self args s)) =
     (if self = Undefined \<or> self = Null then clk_target cfg else self) \<and>
   argsArr (snd (clocked cfg self args s)) = args \<and>
   invoked (fst (triggerProceed (h, v))) = invoked h @ [(now h, thisArg v, argsArr v)] \<and>
   (\<exists>d. reported (snd (triggerController cfg (h, v))) = reported v @ [d] \<and>
        data_target d = thisArg v \<and> data_args d = argsArr v)"
proof -
  have "argsArr (snd (clocked cfg self args s)) = args"
    by (cases s)
       (auto simp add: clocked_def Let_def isActive_def terminate_def setInterval_def
          split: prod.splits)
  moreover from triggerController_reported [of cfg h v]
  have "\<exists>d. reported (snd (triggerController cfg (h, v))) = reported v @ [d] \<and>
        data_target d = thisArg v \<and> data_args d = argsArr v" by blast
  ultimately show ?thesis
    by (simp add: clocked_thisArg triggerProceed_result)
qed

text \<open>The same for a call without context, with \<^verbatim>\<open>null\<close> and with an object.\<close>

theorem clocked_context_witness:
  "thisArg (snd (clocked clockedTest_cfg Undefined [Str ''quick''] (host0, clocked_vars0))) = Obj 1 \<and>
   thisArg (snd (clocked clockedTest_cfg Null [Str ''quick''] (host0, clocked_vars0))) = Obj 1 \<and>
   thisArg (snd (clocked clockedTest_cfg (Obj 2) [Str ''quick''] (host0, clocked_vars0))) = Obj 2"
  using clocked_context [of clockedTest_cfg Undefined "[Str ''quick'']" "(host0, clocked_vars0)"]
    clocked_context [of clockedTest_cfg Null "[Str ''quick'']" "(host0, clocked_vars0)"]
    clocked_context [of clockedTest_cfg "Obj 2" "[Str ''quick'']" "(host0, clocked_vars0)"]
  by (simp add: clockedTest_cfg_def)

text \<open>
  Without a controller: the function is called at 1000 with interval 2000, the tick at
  3000 invokes the wrapped function, and \<^verbatim>\<open>clockCount\<close> is still 0.
\<close>

theorem clocked_count_counterexample:
  "clocked_run clockedTest_cfg 2 [ClockedCall 1000 Undefined [Str ''quick''], WaitUntil 3000]
     (host0, clocked_vars0) =
   Some (\<lparr>now = 3000, nextHandle = 2,
          pending = [\<lparr>handle = 1, due = 5000, period = Some 2000, callback = TriggerProceed,
                      targs = []\<rparr>],
          invoked = [(3000, Obj 1, [Str ''quick''])]\<rparr>,
         \<lparr>thisArg = Obj 1, argsArr = [Str ''quick''], clockCount = Some 0,
          clockStart = Some 1000, timerId = Some 1, reported = []\<rparr>)"
  by (simp add: eval_nat_numeral host0_def clocked_vars0_def clockedTest_cfg_def clocked_def
      isActive_def setInterval_def rearm_def triggerProceed_def apply_proceed_def
      getSanitizedTarget_def js_coalesce_def nullish_def Let_def)

lemma ctl_steps_no_terminate:
  "CallTerminate \<notin> set as \<Longrightarrow> snd (foldl ctl_step s as) = snd s"
proof (induction as arbitrary: s)
  case Nil
  then show ?case by simp
next
  case (Cons a as)
  then obtain c xs where a: "a = CallProceed c xs" by (cases a) auto
  have "snd (ctl_step s a) = snd s" unfolding a by (cases s) simp
  with Cons show ?case by simp
qed

lemma ctl_steps_pending:
  "clocked_inv s \<Longrightarrow>
     pending (fst (foldl ctl_step s as)) = pending (fst s) \<or>
     pending (fst (foldl ctl_step s as)) = []"
proof (induction as arbitrary: s)
  case Nil
  then show ?case by simp
next
  case (Cons a as)
  obtain h v where s: "s = (h, v)" by (cases s)
  have i: "clocked_inv (ctl_step s a)" using Cons.prems by (rule ctl_step_inv)
  have "pending (fst (ctl_step s a)) = pending (fst s) \<or> pending (fst (ctl_step s a)) = []"
    using Cons.prems unfolding s
    by (cases a) (simp_all add: apply_proceed_def terminate_result)
  with Cons.IH [OF i] show ?case by auto
qed

lemma first_tick_controller:
  assumes inv: "clocked_inv (h, v)" and f: "isFunction (clk_controller cfg)"
    and pos: "0 < clk_interval cfg"
    and t: "now h + clk_interval cfg \<le> t" "t < now h + 2 * clk_interval cfg"
  shows "\<exists>s' d. runTimers (clocked_fire cfg) (Suc (Suc n)) t (clocked cfg self args (h, v)) = Some s' \<and>
           reported (snd s') = reported v @ [d] \<and> cd_count (data_clock d) = 1 \<and>
           cd_startTime (data_clock d) = Some (now h) \<and>
           cd_timestamp (data_clock d) = now h + clk_interval cfg \<and>
           data_target d = js_coalesce (getSanitizedTarget self) (clk_target cfg) \<and>
           data_args d = args"
proof -
  let ?x = "\<lparr>handle = nextHandle h, due = now h + clk_interval cfg,
             period = Some (clk_interval cfg), callback = TriggerController, targs = []\<rparr>"
  let ?h1 = "h\<lparr>nextHandle := nextHandle h + 1, pending := [?x]\<rparr>"
  let ?v1 = "v\<lparr>thisArg := js_coalesce (getSanitizedTarget self) (clk_target cfg), argsArr := args,
        clockCount := Some 0, clockStart := Some (now h), timerId := Some (nextHandle h)\<rparr>"
  have c: "clocked cfg self args (h, v) = (?h1, ?v1)"
    using clocked_result [OF inv, of cfg self args] f by simp
  let ?h2 = "rearm ?x (?h1\<lparr>now := max (now ?h1) (due ?x)\<rparr>)"
  have i1: "clocked_inv (?h1, ?v1)"
    using clocked_inv_clocked [OF inv, of cfg self args] unfolding c .
  have i2: "clocked_inv (?h2, ?v1)"
    using rearm_inv [OF i1, of ?x] by simp
  have p2: "pending ?h2 = [?x\<lparr>due := now h + clk_interval cfg + clk_interval cfg\<rparr>]"
    by (simp add: rearm_def)
  have n2: "now ?h2 = now h + clk_interval cfg"
    using pos by (simp add: rearm_def max_def)
  let ?d = "\<lparr>data_clock =
                   \<lparr>cd_interval = clk_interval cfg, cd_startTime = Some (now h),
                    cd_timestamp = now h + clk_interval cfg, cd_count = 1\<rparr>,
                 data_target = thisArg ?v1,
                 data_args = argsArr ?v1\<rparr>"
  let ?s3 = "(?h2, ?v1\<lparr>clockCount := Some 1, reported := reported v @ [?d]\<rparr>)"
  let ?s4 = "foldl ctl_step ?s3 (clk_controller_body cfg ?d)"
  have tc: "triggerController cfg (?h2, ?v1) = ?s4"
    using n2 by (simp add: triggerController_def increment_def Let_def)
  have i3: "clocked_inv ?s3"
    using i2 by (auto simp add: clocked_inv_def split: option.splits list.splits)
  have r4: "reported (snd ?s4) = reported v @ [?d]"
    by (simp add: ctl_steps_reported)
  obtain h4 v4 where s4: "?s4 = (h4, v4)" by (cases ?s4)
  from ctl_steps_pending [OF i3, of "clk_controller_body cfg ?d"] p2
  have p4: "pending h4 = [?x\<lparr>due := now h + clk_interval cfg + clk_interval cfg\<rparr>] \<or> pending h4 = []"
    unfolding s4 by simp
  have stop: "runTimers (clocked_fire cfg) (Suc n) t (h4, v4) = Some (h4\<lparr>now := max (now h4) t\<rparr>, v4)"
    using p4 t(2) by auto
  have "runTimers (clocked_fire cfg) (Suc (Suc n)) t (?h1, ?v1) =
        runTimers (clocked_fire cfg) (Suc n) t (clocked_fire cfg TriggerController [] (?h2, ?v1))"
    using t(1) by simp
  also have "\<dots> = Some (h4\<lparr>now := max (now h4) t\<rparr>, v4)"
    using stop by (simp only: clocked_fire.simps tc s4)
  finally have "runTimers (clocked_fire cfg) (Suc (Suc n)) t (clocked cfg self args (h, v)) =
      Some (h4\<lparr>now := max (now h4) t\<rparr>, v4)"
    unfolding c .
  moreover have "reported v4 = reported v @ [?d]" using r4 unfolding s4 by simp
  ultimately show ?thesis by force
qed

text \<open>
  Claim C2, as the code has it. With a controller, every tick increments
  \<^verbatim>\<open>clockCount\<close> exactly once before it is reported as \<^verbatim>\<open>count\<close> (and it stays at the
  reported value unless the controller terminates), and the first tick after a call
  reports count 1. Without a controller, a tick invokes the wrapped function with the
  captured context and arguments and changes no variable of the governor:
  \<^verbatim>\<open>clockCount\<close> is not incremented.
\<close>

theorem clocked_tick_count:
  "(\<exists>d. reported (snd (triggerController cfg (h, v))) = reported v @ [d] \<and>
        cd_count (data_clock d) = increment (clockCount v) \<and>
        (\<forall>k. clockCount v = Some k \<longrightarrow> cd_count (data_clock d) = k + 1) \<and>
        (CallTerminate \<notin> set (clk_controller_body cfg d) \<longrightarrow>
           clockCount (snd (triggerController cfg (h, v))) = Some (cd_count (data_clock d)))) \<and>
   (clocked_inv (h, v) \<and> isFunction (clk_controller cfg) \<and> 0 < clk_interval cfg \<and>
    now h + clk_interval cfg \<le> t \<and> t < now h + 2 * clk_interval cfg \<longrightarrow>
      (\<exists>s' d. runTimers (clocked_fire cfg) (Suc (Suc n)) t (clocked cfg self args (h, v)) = Some s' \<and>
           reported (snd s') = reported v @ [d] \<and> cd_count (data_clock d) = 1)) \<and>
   triggerProceed (h, v) = (h\<lparr>invoked := invoked h @ [(now h, thisArg v, argsArr v)]\<rparr>, v)"
proof -
  let ?d = "\<lparr>data_clock =
                   \<lparr>cd_interval = clk_interval cfg, cd_startTime = clockStart v,
                    cd_timestamp = now h, cd_count = increment (clockCount v)\<rparr>,
                 data_target = thisArg v,
                 data_args = argsArr v\<rparr>"
  have t: "triggerController cfg (h, v) =
      foldl ctl_step (h, v\<lparr>clockCount := Some (increment (clockCount v)), reported := reported v @ [?d]\<rparr>)
        (clk_controller_body cfg ?d)"
    by (simp add: triggerController_def Let_def)
  have a: "reported (snd (triggerController cfg (h, v))) = reported v @ [?d]"
    unfolding t by (simp add: ctl_steps_reported)
  have b: "\<forall>k. clockCount v = Some k \<longrightarrow> cd_count (data_clock ?d) = k + 1"
    by (simp add: increment_def)
  have c: "CallTerminate \<notin> set (clk_controller_body cfg ?d) \<longrightarrow>
           clockCount (snd (triggerController cfg (h, v))) = Some (cd_count (data_clock ?d))"
    unfolding t by (simp add: ctl_steps_no_terminate)
  have first: "\<exists>d. reported (snd (triggerController cfg (h, v))) = reported v @ [d] \<and>
        cd_count (data_clock d) = increment (clockCount v) \<and>
        (\<forall>k. clockCount v = Some k \<longrightarrow> cd_count (data_clock d) = k + 1) \<and>
        (CallTerminate \<notin> set (clk_controller_body cfg d) \<longrightarrow>
           clockCount (snd (triggerController cfg (h, v))) = Some (cd_count (data_clock d)))"
    using a b c by (intro exI [of _ ?d]) simp
  have second: "clocked_inv (h, v) \<and> isFunction (clk_controller cfg) \<and> 0 < clk_interval cfg \<and>
    now h + clk_interval cfg \<le> t \<and> t < now h + 2 * clk_interval cfg \<longrightarrow>
      (\<exists>s' d. runTimers (clocked_fire cfg) (Suc (Suc n)) t (clocked cfg self args (h, v)) = Some s' \<and>
           reported (snd s') = reported v @ [d] \<and> cd_count (data_clock d) = 1)"
    using first_tick_controller [of h v cfg t n self args] by blast
  from first second show ?thesis by (simp add: triggerProceed_result)
qed

text \<open>The same for \<^verbatim>\<open>controllerTest\<close>: called at 200, the tick at 700 reports count 1.\<close>

theorem clocked_tick_count_witness:
  "clocked_inv (host0\<lparr>now := 200\<rparr>, clocked_vars0) \<and>
   isFunction (clk_controller clockedWelcome_cfg) \<and>
   (\<exists>s' d. runTimers (clocked_fire clockedWelcome_cfg) 2 700
        (clocked clockedWelcome_cfg Undefined [Str ''Mr Snider''] (host0\<lparr>now := 200\<rparr>, clocked_vars0)) = Some s' \<and>
      reported (snd s') = [d] \<and> cd_count (data_clock d) = 1)"
proof -
  have i: "clocked_inv (host0\<lparr>now := 200\<rparr>, clocked_vars0)"
    by (simp add: clocked_inv_def host0_def clocked_vars0_def)
  have two: "Suc (Suc 0) = 2" by simp
  show ?thesis
    using i clocked_tick_count [of clockedWelcome_cfg "host0\<lparr>now := 200\<rparr>" clocked_vars0 700 0
        Undefined "[Str ''Mr Snider'']"]
    by (simp add: two clockedWelcome_cfg_def host0_def clocked_vars0_def)
qed

lemma first_tick_proceed:
  assumes inv: "clocked_inv (h, v)" and f: "\<not> isFunction (clk_controller cfg)"
    and pos: "0 < clk_interval cfg"
    and t: "now h + clk_interval cfg \<le> t" "t < now h + 2 * clk_interval cfg"
  shows "\<exists>h' v'. runTimers (clocked_fire cfg) (Suc (Suc n)) t (clocked cfg self args (h, v)) = Some (h', v') \<and>
           invoked h' = invoked h @
             [(now h + clk_interval cfg, js_coalesce (getSanitizedTarget self) (clk_target cfg), args)] \<and>
           reported v' = reported v"
  using f pos t
  by (simp add: clocked_result [OF inv] rearm_def triggerProceed_result max_def)

lemma before_first_tick:
  assumes inv: "clocked_inv (h, v)" and t: "t < now h + clk_interval cfg"
  shows "\<exists>h' v'. runTimers (clocked_fire cfg) (Suc n) t (clocked cfg self args (h, v)) = Some (h', v') \<and>
           invoked h' = invoked h \<and> reported v' = reported v"
  using t by (simp add: clocked_result [OF inv])

text \<open>
  Claim C10. The interval of a clocked function is positive. A call of it invokes
  neither the wrapped function nor the controller: it leaves one timer pending, due one
  interval after the call, and until then nothing is invoked and nothing is handed to the
  controller. The first tick, one interval after the call, is the first event: without a
  controller it is the first invocation of the wrapped function, with the captured context
  and arguments; with a controller it is the first hand-off to the controller, with count
  1, the time of the call as start time and the time of the tick as time stamp.
\<close>

theorem clocked_call_defers:
  "(createClockedFunction proceed interval target controller body = Inr (Governed cfg)
      \<longrightarrow> 0 < clk_interval cfg) \<and>
   (clocked_inv (h, v) \<longrightarrow>
      invoked (fst (clocked cfg self args (h, v))) = invoked h \<and>
      reported (snd (clocked cfg self args (h, v))) = reported v \<and>
      (\<exists>x. pending (fst (clocked cfg self args (h, v))) = [x] \<and>
           due x = now h + clk_interval cfg) \<and>
      (t < now h + clk_interval cfg \<longrightarrow>
         (\<exists>h' v'. runTimers (clocked_fire cfg) (Suc n) t (clocked cfg self args (h, v)) = Some (h', v') \<and>
            invoked h' = invoked h \<and> reported v' = reported v)) \<and>
      (\<not> isFunction (clk_controller cfg) \<and> 0 < clk_interval cfg \<and>
       now h + clk_interval cfg \<le> t \<and> t < now h + 2 * clk_interval cfg \<longrightarrow>
         (\<exists>h' v'. runTimers (clocked_fire cfg) (Suc (Suc n)) t (clocked cfg self args (h, v)) = Some (h', v') \<and>
            invoked h' = invoked h @
              [(now h + clk_interval cfg, js_coalesce (getSanitizedTarget self) (clk_target cfg), args)] \<and>
            reported v' = reported v)) \<and>
      (isFunction (clk_controller cfg) \<and> 0 < clk_interval cfg \<and>
       now h + clk_interval cfg \<le> t \<and> t < now h + 2 * clk_interval cfg \<longrightarrow>
         (\<exists>s' d. runTimers (clocked_fire cfg) (Suc (Suc n)) t (clocked cfg self args (h, v)) = Some s' \<and>
            reported (snd s') = reported v @ [d] \<and>
            cd_count (data_clock d) = 1 \<and>
            cd_startTime (data_clock d) = Some (now h) \<and>
            cd_timestamp (data_clock d) = now h + clk_interval cfg \<and>
            data_target d = js_coalesce (getSanitizedTarget self) (clk_target cfg) \<and>
            data_args d = args)))"
proof -
  have a: "createClockedFunction proceed interval target controller body = Inr (Governed cfg)
      \<longrightarrow> 0 < clk_interval cfg"
    by (auto simp add: createClockedFunction_def clockedInterval_pos split: sum.splits if_splits)
  have b: "invoked (fst (clocked cfg self args (h, v))) = invoked h \<and>
      reported (snd (clocked cfg self args (h, v))) = reported v \<and>
      (\<exists>x. pending (fst (clocked cfg self args (h, v))) = [x] \<and>
           due x = now h + clk_interval cfg)"
    if "clocked_inv (h, v)"
    by (simp add: clocked_result [OF that])
  from a b before_first_tick [of h v t cfg n self args] first_tick_proceed [of h v cfg t n self args]
    first_tick_controller [of h v cfg t n self args]
  show ?thesis by blast
qed

text \<open>
  The same for \<^verbatim>\<open>argsAndContextTest01\<close>, without a controller (nothing is invoked up to
  1999, the wrapped function at 2000), and for \<^verbatim>\<open>controllerTest\<close> (called at 200, the
  controller receives count 1 at 700).
\<close>

theorem clocked_call_defers_witness:
  "createClockedFunction (Fn 1 True True) (Num (safeInt 2000)) (Obj 1) Undefined no_controller =
     Inr (Governed clockedTest_cfg) \<and>
   0 < clk_interval clockedTest_cfg \<and>
   clocked_inv (host0, clocked_vars0) \<and>
   invoked (fst (clocked clockedTest_cfg Undefined [Str ''quick''] (host0, clocked_vars0))) = [] \<and>
   (\<exists>h' v'. runTimers (clocked_fire clockedTest_cfg) 1 1999
       (clocked clockedTest_cfg Undefined [Str ''quick''] (host0, clocked_vars0)) = Some (h', v') \<and>
       invoked h' = [] \<and> reported v' = []) \<and>
   (\<exists>h' v'. runTimers (clocked_fire clockedTest_cfg) 2 2000
       (clocked clockedTest_cfg Undefined [Str ''quick''] (host0, clocked_vars0)) = Some (h', v') \<and>
       invoked h' = [(2000, Obj 1, [Str ''quick''])] \<and> reported v' = []) \<and>
   isFunction (clk_controller clockedWelcome_cfg) \<and>
   clocked_inv (host0\<lparr>now := 200\<rparr>, clocked_vars0) \<and>
   (\<exists>s' d. runTimers (clocked_fire clockedWelcome_cfg) 2 700
       (clocked clockedWelcome_cfg Undefined [Str ''Mr Snider''] (host0\<lparr>now := 200\<rparr>, clocked_vars0)) =
         Some s' \<and>
       reported (snd s') = [d] \<and> cd_count (data_clock d) = 1 \<and>
       cd_startTime (data_clock d) = Some 200 \<and> cd_timestamp (data_clock d) = 700 \<and>
       data_target d = Obj 1 \<and> data_args d = [Str ''Mr Snider''])"
proof -
  have i: "clocked_inv (host0\<lparr>now := 200\<rparr>, clocked_vars0)"
    by (simp add: clocked_inv_def host0_def clocked_vars0_def)
  have one: "Suc 0 = 1" and two: "Suc (Suc 0) = 2" by simp_all
  have w0: "invoked (fst (clocked clockedTest_cfg Undefined [Str ''quick''] (host0, clocked_vars0))) = []"
    using clocked_inv_init
      clocked_call_defers [of "Fn 1 True True" "Num (safeInt 2000)" "Obj 1" Undefined no_controller
        clockedTest_cfg host0 clocked_vars0 Undefined "[Str ''quick'']" 1999 0]
    by (simp add: host0_def)
  have w1: "\<exists>h' v'. runTimers (clocked_fire clockedTest_cfg) 1 1999
       (clocked clockedTest_cfg Undefined [Str ''quick''] (host0, clocked_vars0)) = Some (h', v') \<and>
       invoked h' = [] \<and> reported v' = []"
    using clocked_inv_init
      clocked_call_defers [of "Fn 1 True True" "Num (safeInt 2000)" "Obj 1" Undefined no_controller
        clockedTest_cfg host0 clocked_vars0 Undefined "[Str ''quick'']" 1999 0]
    by (simp add: clockedTest_cfg_def host0_def clocked_vars0_def)
  have w2: "\<exists>h' v'. runTimers (clocked_fire clockedTest_cfg) 2 2000
       (clocked clockedTest_cfg Undefined [Str ''quick''] (host0, clocked_vars0)) = Some (h', v') \<and>
       invoked h' = [(2000, Obj 1, [Str ''quick''])] \<and> reported v' = []"
    using clocked_inv_init
      clocked_call_defers [of "Fn 1 True True" "Num (safeInt 2000)" "Obj 1" Undefined no_controller
        clockedTest_cfg host0 clocked_vars0 Undefined "[Str ''quick'']" 2000 0]
    by (simp add: two clockedTest_cfg_def host0_def clocked_vars0_def getSanitizedTarget_def
        js_coalesce_def nullish_def)
  have w3: "\<exists>s' d. runTimers (clocked_fire clockedWelcome_cfg) 2 700
       (clocked clockedWelcome_cfg Undefined [Str ''Mr Snider''] (host0\<lparr>now := 200\<rparr>, clocked_vars0)) =
         Some s' \<and>
       reported (snd s') = [d] \<and> cd_count (data_clock d) = 1 \<and>
       cd_startTime (data_clock d) = Some 200 \<and> cd_timestamp (data_clock d) = 700 \<and>
       data_target d = Obj 1 \<and> data_args d = [Str ''Mr Snider'']"
    using i
      clocked_call_defers [of "Fn 1 True True" "Num (safeInt 500)" "Obj 1" "Fn 2 True True"
        stop_after_five clockedWelcome_cfg "host0\<lparr>now := 200\<rparr>" clocked_vars0 Undefined
        "[Str ''Mr Snider'']" 700 0]
    by (simp add: two clockedWelcome_cfg_def host0_def clocked_vars0_def getSanitizedTarget_def
        js_coalesce_def nullish_def)
  show ?thesis
    using clockedTest_cfg_created clocked_inv_init i w0 w1 w2 w3
    by (simp add: clockedTest_cfg_def clockedWelcome_cfg_def)
qed

text \<open>
  Claim C8. \<^verbatim>\<open>terminate\<close> after \<^verbatim>\<open>terminate\<close> yields the state of a single
  \<^verbatim>\<open>terminate\<close>, in which the governor is inactive and \<^verbatim>\<open>timerId\<close>, \<^verbatim>\<open>clockStart\<close> and
  \<^verbatim>\<open>clockCount\<close> are cleared. On an inactive governor, in every state the governor can
  reach from its creation, \<^verbatim>\<open>terminate\<close> changes nothing. It has no branch that throws.
\<close>

theorem terminate_idempotent:
  "terminate (terminate s) = terminate s \<and>
   \<not> isActive (terminate s) \<and>
   timerId (snd (terminate s)) = None \<and>
   clockStart (snd (terminate s)) = None \<and>
   clockCount (snd (terminate s)) = None \<and>
   (clocked_inv s \<and> \<not> isActive s \<longrightarrow> terminate s = s) \<and>
   (clocked_run cfg fuel es (host0, clocked_vars0) = Some s \<and> \<not> isActive s \<longrightarrow> terminate s = s)"
proof -
  have "clocked_run cfg fuel es (host0, clocked_vars0) = Some s \<longrightarrow> clocked_inv s"
    using clocked_run_inv [OF clocked_inv_init] by blast
  moreover have "timerId (snd (terminate s)) = None \<and> clockStart (snd (terminate s)) = None \<and>
      clockCount (snd (terminate s)) = None"
    by (cases s) (simp add: terminate_def)
  ultimately show ?thesis
    using terminate_inactive [of s] by (auto simp add: terminate_twice isActive_def)
qed

text \<open>
  The same for a governor never started, and for one started at 1000 and terminated at
  5000.
\<close>

theorem terminate_idempotent_witness:
  "clocked_inv (host0, clocked_vars0) \<and> \<not> isActive (host0, clocked_vars0) \<and>
   terminate (host0, clocked_vars0) = (host0, clocked_vars0) \<and>
   clocked_run clockedTest_cfg 2
     [ClockedCall 1000 Undefined [Str ''quick''], WaitUntil 3000, TerminateAt 5000]
     (host0, clocked_vars0) =
   Some (\<lparr>now = 5000, nextHandle = 2, pending = [], invoked = [(3000, Obj 1, [Str ''quick''])]\<rparr>,
         \<lparr>thisArg = Obj 1, argsArr = [Str ''quick''], clockCount = None,
          clockStart = None, timerId = None, reported = []\<rparr>) \<and>
   terminate (\<lparr>now = 5000, nextHandle = 2, pending = [], invoked = [(3000, Obj 1, [Str ''quick''])]\<rparr>,
         \<lparr>thisArg = Obj 1, argsArr = [Str ''quick''], clockCount = None,
          clockStart = None, timerId = None, reported = []\<rparr>) =
     (\<lparr>now = 5000, nextHandle = 2, pending = [], invoked = [(3000, Obj 1, [Str ''quick''])]\<rparr>,
         \<lparr>thisArg = Obj 1, argsArr = [Str ''quick''], clockCount = None,
          clockStart = None, timerId = None, reported = []\<rparr>)"
proof -
  have r: "clocked_run clockedTest_cfg 2
     [ClockedCall 1000 Undefined [Str ''quick''], WaitUntil 3000, TerminateAt 5000]
     (host0, clocked_vars0) =
   Some (\<lparr>now = 5000, nextHandle = 2, pending = [], invoked = [(3000, Obj 1, [Str ''quick''])]\<rparr>,
         \<lparr>thisArg = Obj 1, argsArr = [Str ''quick''], clockCount = None,
          clockStart = None, timerId = None, reported = []\<rparr>)"
    by (simp add: eval_nat_numeral host0_def clocked_vars0_def clockedTest_cfg_def clocked_def
        isActive_def setInterval_def rearm_def triggerProceed_def apply_proceed_def terminate_def
        clearTimeout_def getSanitizedTarget_def js_coalesce_def nullish_def Let_def)
  have n: "\<not> isActive (host0, clocked_vars0)"
    by (simp add: isActive_def clocked_vars0_def)
  show ?thesis
    using clocked_inv_init n r
      terminate_idempotent [of "(host0, clocked_vars0)" clockedTest_cfg 0 "[]"]
      terminate_idempotent [of "(\<lparr>now = 5000, nextHandle = 2, pending = [], invoked = [(3000, Obj 1, [Str ''quick''])]\<rparr>,
         \<lparr>thisArg = Obj 1, argsArr = [Str ''quick''], clockCount = None,
          clockStart = None, timerId = None, reported = []\<rparr>)" clockedTest_cfg 2
          "[ClockedCall 1000 Undefined [Str ''quick''], WaitUntil 3000, TerminateAt 5000]"]
    by (simp add: isActive_def)
qed

text \<open>
  Claim C9. The invariant holds at creation and is kept by a call, by \<^verbatim>\<open>terminate\<close>,
  by a tick and by every run of calls, ticks and terminations: the governor's timer is
  pending exactly when \<^verbatim>\<open>timerId\<close> is not \<^verbatim>\<open>null\<close>, and \<^verbatim>\<open>clockCount\<close> and
  \<^verbatim>\<open>clockStart\<close> are set exactly then. A call, also on an active governor, sets
  \<^verbatim>\<open>clockCount\<close> to 0 and \<^verbatim>\<open>clockStart\<close> to the time of the call and leaves exactly one
  timer pending, a new one, due one interval after the call; the timer of the old cycle
  is no longer pending, so it fires no more.
\<close>

theorem clocked_restart_and_invariant:
  "clocked_inv (host0, clocked_vars0) \<and>
   (clocked_inv (h, v) \<longrightarrow>
      (isActive (h, v) \<longleftrightarrow> pending h \<noteq> []) \<and>
      (isActive (h, v) \<longleftrightarrow> clockCount v \<noteq> None) \<and>
      (isActive (h, v) \<longleftrightarrow> clockStart v \<noteq> None) \<and>
      clocked_inv (clocked cfg self args (h, v)) \<and>
      clocked_inv (terminate (h, v)) \<and>
      (\<forall>x. pending h = [x] \<longrightarrow>
         clocked_inv (clocked_fire cfg (callback x) (targs x)
                        (rearm x (h\<lparr>now := max (now h) (due x)\<rparr>), v))) \<and>
      (\<forall>s'. clocked_run cfg fuel es (h, v) = Some s' \<longrightarrow> clocked_inv s') \<and>
      (\<exists>h' v' x. clocked cfg self args (h, v) = (h', v') \<and>
         clockCount v' = Some 0 \<and> clockStart v' = Some (now h) \<and>
         timerId v' = Some (nextHandle h) \<and> timerId v' \<noteq> timerId v \<and>
         pending h' = [x] \<and> handle x = nextHandle h \<and> due x = now h + clk_interval cfg \<and>
         (\<forall>y \<in> set (pending h). handle y \<noteq> handle x \<and> y \<notin> set (pending h'))))"
proof -
  have props: "(isActive (h, v) \<longleftrightarrow> pending h \<noteq> []) \<and>
      (isActive (h, v) \<longleftrightarrow> clockCount v \<noteq> None) \<and>
      (isActive (h, v) \<longleftrightarrow> clockStart v \<noteq> None)"
    if "clocked_inv (h, v)"
    using that by (auto simp add: clocked_inv_def isActive_def split: option.splits list.splits)
  have fire: "\<forall>x. pending h = [x] \<longrightarrow>
         clocked_inv (clocked_fire cfg (callback x) (targs x)
                        (rearm x (h\<lparr>now := max (now h) (due x)\<rparr>), v))"
    if "clocked_inv (h, v)"
    using rearm_inv [OF that] by (simp add: clocked_fire_inv)
  have run: "\<forall>s'. clocked_run cfg fuel es (h, v) = Some s' \<longrightarrow> clocked_inv s'"
    if "clocked_inv (h, v)"
    using clocked_run_inv [OF that] by blast
  have restart: "\<exists>h' v' x. clocked cfg self args (h, v) = (h', v') \<and>
         clockCount v' = Some 0 \<and> clockStart v' = Some (now h) \<and>
         timerId v' = Some (nextHandle h) \<and> timerId v' \<noteq> timerId v \<and>
         pending h' = [x] \<and> handle x = nextHandle h \<and> due x = now h + clk_interval cfg \<and>
         (\<forall>y \<in> set (pending h). handle y \<noteq> handle x \<and> y \<notin> set (pending h'))"
    if i: "clocked_inv (h, v)"
  proof -
    have old: "\<forall>y \<in> set (pending h). handle y < nextHandle h \<and> timerId v = Some (handle y)"
      using i by (auto simp add: clocked_inv_def split: option.splits list.splits)
    have neq: "timerId v \<noteq> Some (nextHandle h)"
      using i by (auto simp add: clocked_inv_def split: option.splits list.splits)
    show ?thesis
      using old neq by (auto simp add: clocked_result [OF i])
  qed
  from props fire run restart clocked_inv_clocked [of "(h, v)" cfg self args]
    terminate_inv [of "(h, v)"] clocked_inv_init
  show ?thesis by blast
qed

text \<open>The same for a governor started at 1000 and called again at 3000.\<close>

theorem clocked_restart_and_invariant_witness:
  "clocked_inv
     (\<lparr>now = 3000, nextHandle = 2,
       pending = [\<lparr>handle = 1, due = 5000, period = Some 2000, callback = TriggerProceed,
                   targs = []\<rparr>],
       invoked = [(3000, Obj 1, [Str ''quick''])]\<rparr>,
      \<lparr>thisArg = Obj 1, argsArr = [Str ''quick''], clockCount = Some 0,
       clockStart = Some 1000, timerId = Some 1, reported = []\<rparr>) \<and>
   clocked clockedTest_cfg (Obj 2) [Str ''brown'']
     (\<lparr>now = 3000, nextHandle = 2,
       pending = [\<lparr>handle = 1, due = 5000, period = Some 2000, callback = TriggerProceed,
                   targs = []\<rparr>],
       invoked = [(3000, Obj 1, [Str ''quick''])]\<rparr>,
      \<lparr>thisArg = Obj 1, argsArr = [Str ''quick''], clockCount = Some 0,
       clockStart = Some 1000, timerId = Some 1, reported = []\<rparr>) =
     (\<lparr>now = 3000, nextHandle = 3,
       pending = [\<lparr>handle = 2, due = 5000, period = Some 2000, callback = TriggerProceed,
                   targs = []\<rparr>],
       invoked = [(3000, Obj 1, [Str ''quick''])]\<rparr>,
      \<lparr>thisArg = Obj 2, argsArr = [Str ''brown''], clockCount = Some 0,
       clockStart = Some 3000, timerId = Some 2, reported = []\<rparr>) \<and>
   clocked_inv
     (\<lparr>now = 3000, nextHandle = 3,
       pending = [\<lparr>handle = 2, due = 5000, period = Some 2000, callback = TriggerProceed,
                   targs = []\<rparr>],
       invoked = [(3000, Obj 1, [Str ''quick''])]\<rparr>,
      \<lparr>thisArg = Obj 2, argsArr = [Str ''brown''], clockCount = Some 0,
       clockStart = Some 3000, timerId = Some 2, reported = []\<rparr>)"
proof -
  let ?h = "\<lparr>now = 3000, nextHandle = 2,
       pending = [\<lparr>handle = 1, due = 5000, period = Some 2000, callback = TriggerProceed,
                   targs = []\<rparr>],
       invoked = [(3000, Obj 1, [Str ''quick''])]\<rparr>"
  let ?v = "\<lparr>thisArg = Obj 1, argsArr = [Str ''quick''], clockCount = Some 0,
       clockStart = Some 1000, timerId = Some 1, reported = []\<rparr>"
  have i: "clocked_inv (?h, ?v)" by (simp add: clocked_inv_def)
  have c: "clocked clockedTest_cfg (Obj 2) [Str ''brown''] (?h, ?v) =
     (\<lparr>now = 3000, nextHandle = 3,
       pending = [\<lparr>handle = 2, due = 5000, period = Some 2000, callback = TriggerProceed,
                   targs = []\<rparr>],
       invoked = [(3000, Obj 1, [Str ''quick''])]\<rparr>,
      \<lparr>thisArg = Obj 2, argsArr = [Str ''brown''], clockCount = Some 0,
       clockStart = Some 3000, timerId = Some 2, reported = []\<rparr>)"
    by (simp add: clockedTest_cfg_def clocked_def isActive_def terminate_def clearTimeout_def
        setInterval_def getSanitizedTarget_def js_coalesce_def nullish_def Let_def)
  show ?thesis
    using i c clocked_restart_and_invariant [of ?h ?v clockedTest_cfg "Obj 2" "[Str ''brown'']" 0 "[]"]
    by simp
qed

end
